theory Spec2Isabelle
  imports Complex_Main
begin

section \<open>Bezier-patch mesh transform: the embedding\<close>

text \<open>
  The program is \<^verbatim>\<open>src/libs/image/tests/kis_mesh_transform_worker_test.cpp\<close>.
  A \<^verbatim>\<open>qreal\<close> is modelled by a real number: arithmetic is exact, rounding is not
  modelled. Where the quotient of a division is used with a divisor that can be zero
  (\<^verbatim>\<open>linearizeCurve\<close>), the IEEE result is written out. A read outside a
  \<^verbatim>\<open>std::vector\<close> is undefined in C++; the functions that can make one return
  \<open>None\<close> there.
\<close>

subsection \<open>QPointF, QSize, QRectF\<close>

datatype QPointF = QPointF (xp: real) (yp: real)

instantiation QPointF :: real_vector
begin

definition zero_QPointF :: QPointF where
  "zero_QPointF = QPointF 0 0"

definition plus_QPointF :: "QPointF \<Rightarrow> QPointF \<Rightarrow> QPointF" where
  "plus_QPointF a b = QPointF (xp a + xp b) (yp a + yp b)"

definition minus_QPointF :: "QPointF \<Rightarrow> QPointF \<Rightarrow> QPointF" where
  "minus_QPointF a b = QPointF (xp a - xp b) (yp a - yp b)"

definition uminus_QPointF :: "QPointF \<Rightarrow> QPointF" where
  "uminus_QPointF a = QPointF (- xp a) (- yp a)"

definition scaleR_QPointF :: "real \<Rightarrow> QPointF \<Rightarrow> QPointF" where
  "scaleR_QPointF c a = QPointF (c * xp a) (c * yp a)"

instance
  by standard
    (simp_all add: zero_QPointF_def plus_QPointF_def minus_QPointF_def
      uminus_QPointF_def scaleR_QPointF_def algebra_simps QPointF.expand)

end

record QSize =
  sizeWidth :: int
  sizeHeight :: int

record QRectF =
  rectX :: real
  rectY :: real
  rectWidth :: real
  rectHeight :: real

subsection \<open>Helpers of Qt, the STL and kis\_algebra\_2d.h\<close>

text \<open>
  These are called by the program and are not among the sources. The Qt and STL ones
  follow the libraries' documented definitions.
\<close>

text \<open>Modelled from the spec: \<^verbatim>\<open>pow2\<close> of kis\_global.h is missing; the square.\<close>

definition pow2 :: "real \<Rightarrow> real" where
  "pow2 x = x * x"

text \<open>
  Modelled from the spec: \<^verbatim>\<open>KisAlgebra2D::norm\<close>, \<^verbatim>\<open>crossProduct\<close>,
  \<^verbatim>\<open>kisDistance\<close> and \<^verbatim>\<open>kisSquareDistance\<close> are missing; the spec calls them the
  chord length, the cross product of the chord vector with a tangent, and the (squared)
  Euclidean distance.
\<close>

definition norm2D :: "QPointF \<Rightarrow> real" where
  "norm2D a = sqrt (pow2 (xp a) + pow2 (yp a))"

definition crossProduct :: "QPointF \<Rightarrow> QPointF \<Rightarrow> real" where
  "crossProduct a b = xp a * yp b - yp a * xp b"

definition kisSquareDistance :: "QPointF \<Rightarrow> QPointF \<Rightarrow> real" where
  "kisSquareDistance a b = pow2 (xp a - xp b) + pow2 (yp a - yp b)"

definition kisDistance :: "QPointF \<Rightarrow> QPointF \<Rightarrow> real" where
  "kisDistance a b = sqrt (kisSquareDistance a b)"

text \<open>
  Modelled from the spec: \<^verbatim>\<open>KisAlgebra2D::relativeToAbsolute\<close> for a point is missing;
  the spec calls it the relative-to-absolute mapping of a proportion pair against a
  rectangle. The overload for a rectangle is in the source (it maps the top-left and the
  bottom-right corner).
\<close>

definition relativeToAbsolute :: "QPointF \<Rightarrow> QRectF \<Rightarrow> QPointF" where
  "relativeToAbsolute pt rc =
     QPointF (rectX rc + xp pt * rectWidth rc) (rectY rc + yp pt * rectHeight rc)"

definition relativeToAbsoluteRect :: "QRectF \<Rightarrow> QRectF \<Rightarrow> QRectF" where
  "relativeToAbsoluteRect rel rc =
     (let tl = relativeToAbsolute (QPointF (rectX rel) (rectY rel)) rc;
          br = relativeToAbsolute
                 (QPointF (rectX rel + rectWidth rel) (rectY rel + rectHeight rel)) rc
      in \<lparr> rectX = xp tl, rectY = yp tl,
           rectWidth = xp br - xp tl, rectHeight = yp br - yp tl \<rparr>)"

text \<open>
  Qt's \<^verbatim>\<open>qFuzzyCompare\<close> for doubles:
  \<^verbatim>\<open>qAbs(p1 - p2) * 1000000000000. <= qMin(qAbs(p1), qAbs(p2))\<close>.
  Against the constant 0.0 it holds of 0.0 only.
\<close>

definition qFuzzyCompare :: "real \<Rightarrow> real \<Rightarrow> bool" where
  "qFuzzyCompare a b \<longleftrightarrow> \<bar>a - b\<bar> * 1000000000000 \<le> min \<bar>a\<bar> \<bar>b\<bar>"

text \<open>\<^verbatim>\<open>qCeil\<close>: the ceiling, as an \<^verbatim>\<open>int\<close>.\<close>

definition qCeil :: "real \<Rightarrow> int" where
  "qCeil v = \<lceil>v\<rceil>"

text \<open>
  \<^verbatim>\<open>std::merge\<close> on two sorted ranges (an element of the second range is taken only
  when it is less than the head of the first) and \<^verbatim>\<open>std::unique\<close> with a binary
  predicate (an element is dropped when the predicate relates the last kept element to it).
\<close>

fun std_merge :: "real list \<Rightarrow> real list \<Rightarrow> real list" where
  "std_merge [] ys = ys"
| "std_merge xs [] = xs"
| "std_merge (x # xs) (y # ys) =
     (if y < x then y # std_merge (x # xs) ys else x # std_merge xs (y # ys))"

fun std_unique :: "('a \<Rightarrow> 'a \<Rightarrow> bool) \<Rightarrow> 'a list \<Rightarrow> 'a list" where
  "std_unique eq [] = []"
| "std_unique eq [x] = [x]"
| "std_unique eq (x # y # ys) =
     (if eq x y then std_unique eq (x # ys) else x # std_unique eq (y # ys))"

text \<open>
  \<^verbatim>\<open>std::upper_bound\<close> on a sorted range, as an index: the first position whose element
  is greater than the value (the length when there is none).
\<close>

definition upper_bound :: "real list \<Rightarrow> real \<Rightarrow> nat" where
  "upper_bound xs t = length (takeWhile (\<lambda>x. \<not> t < x) xs)"

subsection \<open>Geometry primitives\<close>

definition lerp :: "QPointF \<Rightarrow> QPointF \<Rightarrow> real \<Rightarrow> QPointF" where
  "lerp pt1 pt2 t = pt1 + t *\<^sub>R (pt2 - pt1)"

definition bezierCurve ::
  "QPointF \<Rightarrow> QPointF \<Rightarrow> QPointF \<Rightarrow> QPointF \<Rightarrow> real \<Rightarrow> QPointF" where
  "bezierCurve p0 p1 p2 p3 t =
     (let t_2 = pow2 t;
          t_3 = t_2 * t;
          t_inv = 1 - t;
          t_inv_2 = pow2 t_inv;
          t_inv_3 = t_inv_2 * t_inv
      in t_inv_3 *\<^sub>R p0 + (3 * t_inv_2 * t) *\<^sub>R p1 + (3 * t_inv * t_2) *\<^sub>R p2 + t_3 *\<^sub>R p3)"

definition bezierCurveDeriv ::
  "QPointF \<Rightarrow> QPointF \<Rightarrow> QPointF \<Rightarrow> QPointF \<Rightarrow> real \<Rightarrow> QPointF" where
  "bezierCurveDeriv p0 p1 p2 p3 t =
     (let t_2 = pow2 t;
          t_inv = 1 - t;
          t_inv_2 = pow2 t_inv
      in (3 * t_inv_2) *\<^sub>R (p1 - p0) + (6 * t_inv * t) *\<^sub>R (p2 - p1) + (3 * t_2) *\<^sub>R (p3 - p2))"

text \<open>
  \<^verbatim>\<open>deCasteljau\<close>: the array \<open>q\<close> is overwritten in place by the inner loop
  (\<open>i = 0 .. 3 - j\<close>); after pass \<open>j\<close> the outer loop stores \<open>q[0]\<close> in \<open>p[j - 1]\<close>.
  The five results are \<open>p[0], p[1], p[2], q[1], q[2]\<close>.
\<close>

definition deCasteljau_pass :: "real \<Rightarrow> nat \<Rightarrow> QPointF list \<Rightarrow> QPointF list" where
  "deCasteljau_pass t j q =
     fold (\<lambda>i q. q[i := (1 - t) *\<^sub>R (q ! i) + t *\<^sub>R (q ! (i + 1))]) [0..<Suc (3 - j)] q"

definition deCasteljau ::
  "QPointF \<Rightarrow> QPointF \<Rightarrow> QPointF \<Rightarrow> QPointF \<Rightarrow> real \<Rightarrow>
   QPointF \<times> QPointF \<times> QPointF \<times> QPointF \<times> QPointF" where
  "deCasteljau q0 q1 q2 q3 t =
     (let qp = fold (\<lambda>j qp. let q = deCasteljau_pass t j (fst qp)
                             in (q, (snd qp)[j - 1 := q ! 0]))
                    [1..<4] ([q0, q1, q2, q3], [0, 0, 0]);
          q = fst qp; p = snd qp
      in (p ! 0, p ! 1, p ! 2, q ! 1, q ! 2))"

subsection \<open>Node\<close>

record Node =
  leftControl :: QPointF
  topControl :: QPointF
  node :: QPointF
  rightControl :: QPointF
  bottomControl :: QPointF

text \<open>The constructor \<^verbatim>\<open>Node(const QPointF &_node)\<close>.\<close>

definition mkNode :: "QPointF \<Rightarrow> Node" where
  "mkNode pt = \<lparr> leftControl = pt, topControl = pt, node = pt,
                rightControl = pt, bottomControl = pt \<rparr>"

text \<open>The default constructor \<^verbatim>\<open>Node()\<close>: five default points.\<close>

definition emptyNode :: Node where
  "emptyNode = mkNode 0"

subsection \<open>BezierPatch\<close>

datatype ControlPointType =
  TL | TL_HC | TL_VC | TR | TR_HC | TR_VC | BL | BL_HC | BL_VC | BR | BR_HC | BR_VC

text \<open>The array \<^verbatim>\<open>std::array<QPointF, 12> points\<close> is indexed by the enumeration.\<close>

record BezierPatch =
  originalRect :: QRectF
  points :: "ControlPointType \<Rightarrow> QPointF"

definition controlPointTypes :: "ControlPointType list" where
  "controlPointTypes = [TL, TL_HC, TL_VC, TR, TR_HC, TR_VC, BL, BL_HC, BL_VC, BR, BR_HC, BR_VC]"

text \<open>
  Modelled from the spec: \<^verbatim>\<open>KisAlgebra2D::accumulateBounds\<close> is missing; the spec says
  \<^verbatim>\<open>dstBoundingRect\<close> is the axis-aligned bounds of all 12 destination control points.
\<close>

definition dstBoundingRect :: "BezierPatch \<Rightarrow> QRectF" where
  "dstBoundingRect patch =
     (let xs = map (\<lambda>c. xp (points patch c)) controlPointTypes;
          ys = map (\<lambda>c. yp (points patch c)) controlPointTypes;
          x_min = fold min xs (hd xs); x_max = fold max xs (hd xs);
          y_min = fold min ys (hd ys); y_max = fold max ys (hd ys)
      in \<lparr> rectX = x_min, rectY = y_min,
           rectWidth = x_max - x_min, rectHeight = y_max - y_min \<rparr>)"

definition srcBoundingRect :: "BezierPatch \<Rightarrow> QRectF" where
  "srcBoundingRect patch = originalRect patch"

text \<open>
  \<^verbatim>\<open>isLinearSegment\<close>. Only an offset above \<open>1.0\<close> is tested; the source carries the
  comment \<^verbatim>\<open>TODO: handle negative projection case\<close>. When \<open>p0 = p1\<close> the divisor
  \<open>dist\<close> is zero: in IEEE arithmetic \<open>normCoeff\<close> is infinite, both cross products are
  zero and both offsets are NaN, so neither comparison holds and the result is true;
  here \<open>normCoeff\<close> is then \<open>0\<close> and the result is true as well.
\<close>

definition isLinearSegment :: "QPointF \<Rightarrow> QPointF \<Rightarrow> QPointF \<Rightarrow> QPointF \<Rightarrow> bool" where
  "isLinearSegment p0 d0 p1 d1 =
     (let diff = p1 - p0;
          dist = norm2D diff;
          normCoeff = 1 / 3 / dist;
          offset1 = normCoeff * crossProduct diff d0
      in if offset1 > 1 then False
         else let offset2 = normCoeff * crossProduct diff d1
              in if offset2 > 1 then False else True)"

text \<open>
  The quotient \<^verbatim>\<open>2.0 / kisDistance(p0, p3)\<close> of \<^verbatim>\<open>linearizeCurve\<close>. The source
  divides without a test of the divisor. For the divisor zero the IEEE quotient of the
  positive dividend is plus infinity, and every finite number is below it.
\<close>

datatype quotient = Quotient real | DivisionByZero

definition divide_qreal :: "real \<Rightarrow> real \<Rightarrow> quotient" where
  "divide_qreal a b = (if b = 0 then DivisionByZero else Quotient (a / b))"

fun less_quotient :: "real \<Rightarrow> quotient \<Rightarrow> bool" where
  "less_quotient x (Quotient m) = (x < m)"
| "less_quotient x DivisionByZero = True"

definition minStepSize :: "QPointF \<Rightarrow> QPointF \<Rightarrow> quotient" where
  "minStepSize p0 p3 = divide_qreal 2 (kisDistance p0 p3)"

text \<open>
  The loop of \<^verbatim>\<open>linearizeCurve\<close>: the state is \<open>lastP, lastD, lastT\<close>, the vector
  \<open>steps\<close> and the stack (its top is the head of the list). A loop that does not end is
  the value \<open>None\<close>.
\<close>

partial_function (option) linearizeLoop ::
  "QPointF \<times> QPointF \<times> QPointF \<times> QPointF \<Rightarrow> quotient \<Rightarrow> QPointF \<Rightarrow> QPointF \<Rightarrow> real \<Rightarrow>
   real list \<Rightarrow> (QPointF \<times> QPointF \<times> real) list \<Rightarrow> real list option" where
  "linearizeLoop c minStep lastP lastD lastT steps stackedPoints =
     (case stackedPoints of
        [] \<Rightarrow> Some steps
      | entry # rest \<Rightarrow>
          (let p = fst entry; d = fst (snd entry); t = snd (snd entry)
           in if less_quotient (t - lastT) minStep \<or> isLinearSegment lastP lastD p d
              then linearizeLoop c minStep p d t (steps @ [t]) rest
              else (let t' = 0.5 * (lastT + t);
                        p' = bezierCurve (fst c) (fst (snd c)) (fst (snd (snd c)))
                               (snd (snd (snd c))) t';
                        d' = bezierCurveDeriv (fst c) (fst (snd c)) (fst (snd (snd c)))
                               (snd (snd (snd c))) t'
                    in linearizeLoop c minStep lastP lastD lastT steps
                         ((p', d', t') # stackedPoints))))"

definition linearizeCurve ::
  "QPointF \<Rightarrow> QPointF \<Rightarrow> QPointF \<Rightarrow> QPointF \<Rightarrow> real list option" where
  "linearizeCurve p0 p1 p2 p3 =
     linearizeLoop (p0, p1, p2, p3) (minStepSize p0 p3) p0 (3 *\<^sub>R (p1 - p0)) 0 [0]
       [(p3, 3 *\<^sub>R (p3 - p2), 1)]"

text \<open>
  A measure of the loop's state, for the proof that the loop ends: with the minimum step
  \<open>m\<close>, an interval of length \<open>g\<close> is bisected at most \<open>halvings m g\<close> times in a
  row and costs at most \<open>intervalCost m g\<close> passes; the stack holds the right ends of
  adjacent intervals that start at \<open>lastT\<close>.
\<close>

definition halvings :: "real \<Rightarrow> real \<Rightarrow> nat" where
  "halvings m g = (if g < m then 0 else nat \<lfloor>log 2 (g / m)\<rfloor> + 1)"

definition intervalCost :: "real \<Rightarrow> real \<Rightarrow> nat" where
  "intervalCost m g = 2 ^ (halvings m g + 1) - 1"

fun loopMeasure :: "real \<Rightarrow> real \<Rightarrow> (QPointF \<times> QPointF \<times> real) list \<Rightarrow> nat" where
  "loopMeasure m lastT [] = 0"
| "loopMeasure m lastT (e # rest) =
     intervalCost m (snd (snd e) - lastT) + loopMeasure m (snd (snd e)) rest"

definition mergeSteps :: "real list \<Rightarrow> real list \<Rightarrow> real list" where
  "mergeSteps a b = std_unique qFuzzyCompare (std_merge a b)"

text \<open>
  The point \<^verbatim>\<open>transf = Sc + Sd - Sb\<close> that both samplers compute for a pair of
  proportions, and the source point \<^verbatim>\<open>orig\<close>.
\<close>

definition transfPoint :: "BezierPatch \<Rightarrow> real \<Rightarrow> real \<Rightarrow> QPointF" where
  "transfPoint patch xProportion yProportion =
     (let pt = points patch;
          Sc = lerp (bezierCurve (pt TL) (pt TL_HC) (pt TR_HC) (pt TR) xProportion)
                    (bezierCurve (pt BL) (pt BL_HC) (pt BR_HC) (pt BR) xProportion)
                    yProportion;
          Sd = lerp (bezierCurve (pt TL) (pt TL_VC) (pt BL_VC) (pt BL) yProportion)
                    (bezierCurve (pt TR) (pt TR_VC) (pt BR_VC) (pt BR) yProportion)
                    xProportion;
          Sb = lerp (lerp (pt TL) (pt TR) xProportion)
                    (lerp (pt BL) (pt BR) xProportion)
                    yProportion
      in Sc + Sd - Sb)"

definition origPoint :: "BezierPatch \<Rightarrow> real \<Rightarrow> real \<Rightarrow> QPointF" where
  "origPoint patch xProportion yProportion =
     relativeToAbsolute (QPointF xProportion yProportion) (originalRect patch)"

text \<open>
  The two nested loops of a sampler, over the rows \<open>y\<close> and the columns \<open>x\<close> of the
  grid: the values appended to a vector, row by row.
\<close>

definition gridLoop :: "nat \<Rightarrow> nat \<Rightarrow> (nat \<Rightarrow> nat \<Rightarrow> 'a) \<Rightarrow> 'a list" where
  "gridLoop w h f = concat (map (\<lambda>y. map (\<lambda>x. f x y) [0..<w]) [0..<h])"

definition horizontalSteps :: "BezierPatch \<Rightarrow> real list option" where
  "horizontalSteps patch =
     (let pt = points patch in
      case linearizeCurve (pt TL) (pt TL_HC) (pt TR_HC) (pt TR) of
        None \<Rightarrow> None
      | Some topSteps \<Rightarrow>
          (case linearizeCurve (pt BL) (pt BL_HC) (pt BR_HC) (pt BR) of
             None \<Rightarrow> None
           | Some bottomSteps \<Rightarrow> Some (mergeSteps topSteps bottomSteps)))"

definition verticalSteps :: "BezierPatch \<Rightarrow> real list option" where
  "verticalSteps patch =
     (let pt = points patch in
      case linearizeCurve (pt TL) (pt TL_VC) (pt BL_VC) (pt BL) of
        None \<Rightarrow> None
      | Some leftSteps \<Rightarrow>
          (case linearizeCurve (pt TR) (pt TR_VC) (pt BR_VC) (pt BR) of
             None \<Rightarrow> None
           | Some rightSteps \<Rightarrow> Some (mergeSteps leftSteps rightSteps)))"

text \<open>
  \<^verbatim>\<open>sampleIrregularGrid\<close>: the result is the grid size and the two vectors, each with
  the new points appended.
\<close>

definition sampleIrregularGrid ::
  "BezierPatch \<Rightarrow> QPointF list \<Rightarrow> QPointF list \<Rightarrow> (QSize \<times> QPointF list \<times> QPointF list) option"
  where
  "sampleIrregularGrid patch origPoints transfPoints =
     (case horizontalSteps patch of
        None \<Rightarrow> None
      | Some hs \<Rightarrow>
          (case verticalSteps patch of
             None \<Rightarrow> None
           | Some vs \<Rightarrow>
               Some (\<lparr> sizeWidth = int (length hs), sizeHeight = int (length vs) \<rparr>,
                     origPoints @ gridLoop (length hs) (length vs)
                                    (\<lambda>x y. origPoint patch (hs ! x) (vs ! y)),
                     transfPoints @ gridLoop (length hs) (length vs)
                                      (\<lambda>x y. transfPoint patch (hs ! x) (vs ! y)))))"

text \<open>
  \<^verbatim>\<open>sampleRegularGrid\<close>. The proportions divide by \<open>gridSize - 1\<close>; the source has no
  test for a grid of one column or one row, nor for a zero step (the spec lists the first
  as an open question). Those calls have no real-valued result: \<open>None\<close>.
\<close>

definition regularGridSize :: "BezierPatch \<Rightarrow> QPointF \<Rightarrow> QSize" where
  "regularGridSize patch dstStep =
     (let bounds = dstBoundingRect patch
      in \<lparr> sizeWidth = qCeil (rectWidth bounds / xp dstStep),
           sizeHeight = qCeil (rectHeight bounds / yp dstStep) \<rparr>)"

definition xProportionOf :: "QSize \<Rightarrow> nat \<Rightarrow> real" where
  "xProportionOf gridSize x = real x / real_of_int (sizeWidth gridSize - 1)"

definition yProportionOf :: "QSize \<Rightarrow> nat \<Rightarrow> real" where
  "yProportionOf gridSize y = real y / real_of_int (sizeHeight gridSize - 1)"

definition sampleRegularGrid ::
  "BezierPatch \<Rightarrow> QPointF list \<Rightarrow> QPointF list \<Rightarrow> QPointF \<Rightarrow>
   (QSize \<times> QPointF list \<times> QPointF list) option" where
  "sampleRegularGrid patch origPoints transfPoints dstStep =
     (if xp dstStep = 0 \<or> yp dstStep = 0 then None
      else let gridSize = regularGridSize patch dstStep;
               w = nat (sizeWidth gridSize); h = nat (sizeHeight gridSize)
           in if 0 < w \<and> 0 < h \<and> (w = 1 \<or> h = 1) then None
              else Some (gridSize,
                     origPoints @ gridLoop w h
                       (\<lambda>x y. origPoint patch (xProportionOf gridSize x) (yProportionOf gridSize y)),
                     transfPoints @ gridLoop w h
                       (\<lambda>x y. transfPoint patch (xProportionOf gridSize x)
                                 (yProportionOf gridSize y))))"

text \<open>
  A patch over the square of side 4 whose four boundary curves bulge; it serves as a
  concrete input. Each of its boundary curves is linearized into the steps 0, 1/2, 1.
\<close>

definition examplePatch :: BezierPatch where
  "examplePatch =
     \<lparr> originalRect = \<lparr> rectX = 0, rectY = 0, rectWidth = 4, rectHeight = 4 \<rparr>,
       points = (\<lambda>c. case c of
           TL \<Rightarrow> QPointF 0 0 | TL_HC \<Rightarrow> QPointF 1 2 | TL_VC \<Rightarrow> QPointF 2 1
         | TR \<Rightarrow> QPointF 4 0 | TR_HC \<Rightarrow> QPointF 3 2 | TR_VC \<Rightarrow> QPointF 6 1
         | BL \<Rightarrow> QPointF 0 4 | BL_HC \<Rightarrow> QPointF 1 6 | BL_VC \<Rightarrow> QPointF 2 3
         | BR \<Rightarrow> QPointF 4 4 | BR_HC \<Rightarrow> QPointF 3 6 | BR_VC \<Rightarrow> QPointF 6 3) \<rparr>"

text \<open>
  The spec's words for the degenerate case: the bilinear interpolation of the four corner
  points of a patch at a pair of proportions (the source computes it as \<open>Sb\<close>). A patch
  is flat when each of its eight control points lies on its corner. The cubic Bezier
  curve from \<open>a\<close> to \<open>b\<close> whose control points lie on \<open>a\<close> and \<open>b\<close> runs along the
  straight line with the parameter \<open>3 t^2 - 2 t^3\<close>.
\<close>

definition bilinearInterpolation :: "BezierPatch \<Rightarrow> real \<Rightarrow> real \<Rightarrow> QPointF" where
  "bilinearInterpolation patch xProportion yProportion =
     lerp (lerp (points patch TL) (points patch TR) xProportion)
          (lerp (points patch BL) (points patch BR) xProportion)
          yProportion"

definition flatPatch :: "BezierPatch \<Rightarrow> bool" where
  "flatPatch patch \<longleftrightarrow>
     points patch TL_HC = points patch TL \<and> points patch TL_VC = points patch TL \<and>
     points patch TR_HC = points patch TR \<and> points patch TR_VC = points patch TR \<and>
     points patch BL_HC = points patch BL \<and> points patch BL_VC = points patch BL \<and>
     points patch BR_HC = points patch BR \<and> points patch BR_VC = points patch BR"

definition flatCurveParameter :: "real \<Rightarrow> real" where
  "flatCurveParameter t = 3 * pow2 t - 2 * (pow2 t * t)"

subsection \<open>BezierMesh\<close>

record BezierMesh =
  m_nodes :: "Node list"
  m_rows :: "real list"
  m_columns :: "real list"
  m_size :: QSize
  m_originalRect :: QRectF

text \<open>
  The constructor \<^verbatim>\<open>BezierMesh(mapRect, size)\<close>: the nodes row by row, then the
  column and the row positions. The default size is \<^verbatim>\<open>QSize(2,2)\<close>.
\<close>

definition defaultSize :: QSize where
  "defaultSize = \<lparr> sizeWidth = 2, sizeHeight = 2 \<rparr>"

definition newBezierMesh :: "QRectF \<Rightarrow> QSize \<Rightarrow> BezierMesh" where
  "newBezierMesh mapRect sz =
     \<lparr> m_nodes =
         gridLoop (nat (sizeWidth sz)) (nat (sizeHeight sz))
           (\<lambda>col row.
              let yPos = real row / real_of_int (sizeHeight sz - 1) * rectHeight mapRect
                           + rectY mapRect;
                  xPos = real col / real_of_int (sizeWidth sz - 1) * rectWidth mapRect
                           + rectX mapRect
              in mkNode (QPointF xPos yPos)),
       m_rows = map (\<lambda>row. real row / real_of_int (sizeHeight sz - 1))
                  [0..<nat (sizeHeight sz)],
       m_columns = map (\<lambda>col. real col / real_of_int (sizeWidth sz - 1))
                     [0..<nat (sizeWidth sz)],
       m_size = sz,
       m_originalRect = mapRect \<rparr>"

definition meshWidth :: "BezierMesh \<Rightarrow> nat" where
  "meshWidth m = nat (sizeWidth (m_size m))"

definition meshHeight :: "BezierMesh \<Rightarrow> nat" where
  "meshHeight m = nat (sizeHeight (m_size m))"

text \<open>\<^verbatim>\<open>node(col, row)\<close>: the element \<open>row * width + col\<close> of the storage.\<close>

definition mesh_node :: "BezierMesh \<Rightarrow> nat \<Rightarrow> nat \<Rightarrow> Node" where
  "mesh_node m col row = m_nodes m ! (row * meshWidth m + col)"

text \<open>
  \<^verbatim>\<open>splitCurveHorizontally\<close> and \<^verbatim>\<open>splitCurveVertically\<close> write to their three
  reference arguments; the results are the two end nodes and the new node, as updated.
\<close>

definition splitCurveHorizontally :: "Node \<Rightarrow> Node \<Rightarrow> real \<Rightarrow> Node \<Rightarrow> Node \<times> Node \<times> Node" where
  "splitCurveHorizontally l r t newNode =
     (case deCasteljau (node l) (rightControl l) (leftControl r) (node r) t of
        (p1, p2, p3, q1, q2) \<Rightarrow>
          let l' = l\<lparr> rightControl := p1 \<rparr>;
              n1 = newNode\<lparr> leftControl := p2, node := p3, rightControl := q1 \<rparr>;
              r' = r\<lparr> leftControl := q2 \<rparr>;
              n2 = n1\<lparr> topControl :=
                     node n1 + lerp (topControl l' - node l') (topControl r' - node r') t \<rparr>;
              n3 = n2\<lparr> bottomControl :=
                     node n2 + lerp (bottomControl l' - node l') (bottomControl r' - node r') t \<rparr>
          in (l', r', n3))"

definition splitCurveVertically :: "Node \<Rightarrow> Node \<Rightarrow> real \<Rightarrow> Node \<Rightarrow> Node \<times> Node \<times> Node" where
  "splitCurveVertically tp bt t newNode =
     (case deCasteljau (node tp) (bottomControl tp) (topControl bt) (node bt) t of
        (p1, p2, p3, q1, q2) \<Rightarrow>
          let tp' = tp\<lparr> bottomControl := p1 \<rparr>;
              n1 = newNode\<lparr> topControl := p2, node := p3, bottomControl := q1 \<rparr>;
              bt' = bt\<lparr> topControl := q2 \<rparr>;
              n2 = n1\<lparr> leftControl :=
                     node n1 + lerp (leftControl tp' - node tp') (leftControl bt' - node bt') t \<rparr>;
              n3 = n2\<lparr> rightControl :=
                     node n2 + lerp (rightControl tp' - node tp') (rightControl bt' - node bt') t \<rparr>
          in (tp', bt', n3))"

text \<open>
  One pass of the loop of \<^verbatim>\<open>subdivideRow\<close> over the columns: the state is the node
  storage (the two end nodes are updated in place) and the vector \<open>newRow\<close>.
\<close>

definition splitRowStep ::
  "nat \<Rightarrow> nat \<Rightarrow> nat \<Rightarrow> real \<Rightarrow> nat \<Rightarrow> Node list \<times> Node list \<Rightarrow> Node list \<times> Node list" where
  "splitRowStep w topRow bottomRow relT col st =
     (let nodes = fst st; newRow = snd st;
          r = splitCurveVertically (nodes ! (topRow * w + col)) (nodes ! (bottomRow * w + col))
                relT (newRow ! col)
      in ((nodes[topRow * w + col := fst r])[bottomRow * w + col := fst (snd r)],
          newRow[col := snd (snd r)]))"

text \<open>
  \<^verbatim>\<open>subdivideRow\<close>. The two early returns leave the mesh as it is
  (\<^verbatim>\<open>KIS_SAFE_ASSERT_RECOVER_RETURN\<close> returns when its condition fails). \<open>None\<close>: the
  iterator \<open>prev(upper_bound(..))\<close> or \<open>next(it)\<close> is outside the vector, the width is
  negative, or a node is read outside the storage.
\<close>

definition subdivideRow :: "real \<Rightarrow> BezierMesh \<Rightarrow> BezierMesh option" where
  "subdivideRow t m =
     (if qFuzzyCompare t 0 \<or> qFuzzyCompare t 1 then Some m
      else if \<not> (t > 0 \<and> t < 1) then Some m
      else let ub = upper_bound (m_rows m) t in
        if ub = 0 \<or> length (m_rows m) \<le> ub then None
        else let topRow = ub - 1;
                 bottomRow = topRow + 1;
                 relT = (t - m_rows m ! topRow) / (m_rows m ! bottomRow - m_rows m ! topRow);
                 w = meshWidth m
             in if sizeWidth (m_size m) < 0 \<or> length (m_nodes m) < bottomRow * w + w then None
                else let st = fold (splitRowStep w topRow bottomRow relT) [0..<w]
                                (m_nodes m, replicate w emptyNode);
                         nodes = fst st; newRow = snd st
                     in Some (m\<lparr> m_nodes := take (bottomRow * w) nodes @ newRow
                                              @ drop (bottomRow * w) nodes,
                                 m_size := (m_size m)\<lparr> sizeHeight := sizeHeight (m_size m) + 1 \<rparr>,
                                 m_rows := take bottomRow (m_rows m) @ [t]
                                             @ drop bottomRow (m_rows m) \<rparr>))"

text \<open>
  \<^verbatim>\<open>subdivideColumn\<close>: the loop over the rows, then the loop that inserts the new
  column, one node per row, at \<open>dstIt\<close>, which then moves on by \<open>width + 1\<close>.
\<close>

definition splitColumnStep ::
  "nat \<Rightarrow> nat \<Rightarrow> nat \<Rightarrow> real \<Rightarrow> nat \<Rightarrow> Node list \<times> Node list \<Rightarrow> Node list \<times> Node list" where
  "splitColumnStep w leftColumn rightColumn relT row st =
     (let nodes = fst st; newColumn = snd st;
          r = splitCurveHorizontally (nodes ! (row * w + leftColumn))
                (nodes ! (row * w + rightColumn)) relT (newColumn ! row)
      in ((nodes[row * w + leftColumn := fst r])[row * w + rightColumn := fst (snd r)],
          newColumn[row := snd (snd r)]))"

definition insertColumnStep :: "nat \<Rightarrow> Node \<Rightarrow> Node list \<times> nat \<Rightarrow> Node list \<times> nat" where
  "insertColumnStep w c st =
     (let nodes = fst st; dstIt = snd st
      in (take dstIt nodes @ [c] @ drop dstIt nodes, dstIt + (w + 1)))"

definition subdivideColumn :: "real \<Rightarrow> BezierMesh \<Rightarrow> BezierMesh option" where
  "subdivideColumn t m =
     (if qFuzzyCompare t 0 \<or> qFuzzyCompare t 1 then Some m
      else if \<not> (t > 0 \<and> t < 1) then Some m
      else let ub = upper_bound (m_columns m) t in
        if ub = 0 \<or> length (m_columns m) \<le> ub then None
        else let leftColumn = ub - 1;
                 rightColumn = leftColumn + 1;
                 relT = (t - m_columns m ! leftColumn)
                          / (m_columns m ! rightColumn - m_columns m ! leftColumn);
                 w = meshWidth m; h = meshHeight m
             in if sizeHeight (m_size m) < 0 \<or> sizeWidth (m_size m) < 0
                   \<or> (0 < h \<and> length (m_nodes m) \<le> (h - 1) * w + rightColumn) then None
                else let st = fold (splitColumnStep w leftColumn rightColumn relT) [0..<h]
                                (m_nodes m, replicate h emptyNode);
                         nodes = fst st; newColumn = snd st;
                         ins = fold (insertColumnStep w) newColumn (nodes, rightColumn)
                     in Some (m\<lparr> m_nodes := fst ins,
                                 m_size := (m_size m)\<lparr> sizeWidth := sizeWidth (m_size m) + 1 \<rparr>,
                                 m_columns := take rightColumn (m_columns m) @ [t]
                                                @ drop rightColumn (m_columns m) \<rparr>))"

text \<open>
  \<^verbatim>\<open>makePatch\<close>. \<open>None\<close>: one of the four nodes, or a column or a row position, is
  outside its vector.
\<close>

definition makePatch :: "BezierMesh \<Rightarrow> nat \<Rightarrow> nat \<Rightarrow> BezierPatch option" where
  "makePatch m col row =
     (if length (m_nodes m) \<le> (row + 1) * meshWidth m + (col + 1)
         \<or> length (m_columns m) \<le> col + 1 \<or> length (m_rows m) \<le> row + 1 then None
      else let tl = mesh_node m col row;
               tr = mesh_node m (col + 1) row;
               bl = mesh_node m col (row + 1);
               br = mesh_node m (col + 1) (row + 1);
               relRect = \<lparr> rectX = m_columns m ! col,
                           rectY = m_rows m ! row,
                           rectWidth = m_columns m ! (col + 1) - m_columns m ! col,
                           rectHeight = m_rows m ! (row + 1) - m_rows m ! row \<rparr>
           in Some \<lparr> originalRect = relativeToAbsoluteRect relRect (m_originalRect m),
                     points = (\<lambda>c. case c of
                         TL \<Rightarrow> node tl | TL_HC \<Rightarrow> rightControl tl | TL_VC \<Rightarrow> bottomControl tl
                       | TR \<Rightarrow> node tr | TR_HC \<Rightarrow> leftControl tr | TR_VC \<Rightarrow> bottomControl tr
                       | BL \<Rightarrow> node bl | BL_HC \<Rightarrow> rightControl bl | BL_VC \<Rightarrow> topControl bl
                       | BR \<Rightarrow> node br | BR_HC \<Rightarrow> leftControl br | BR_VC \<Rightarrow> topControl br) \<rparr>)"

text \<open>
  The storage after the insertion loop of \<^verbatim>\<open>subdivideColumn\<close>, in closed form (used
  in the proofs): from the first insertion position on, one new node, then \<open>w\<close> old
  ones, and so on.
\<close>

fun interleaveColumn :: "nat \<Rightarrow> 'a list \<Rightarrow> 'a list \<Rightarrow> 'a list" where
  "interleaveColumn w [] xs = xs"
| "interleaveColumn w (c # cs) xs = c # take w xs @ interleaveColumn w cs (drop w xs)"

text \<open>
  The invariant of the data model: the logical size is at least 2 by 2, the storage holds
  width times height nodes, there is one column position per column and one row position
  per row, each sequence starts with 0, ends with 1 and is sorted.
\<close>

definition meshInvariant :: "BezierMesh \<Rightarrow> bool" where
  "meshInvariant m \<longleftrightarrow>
     2 \<le> sizeWidth (m_size m) \<and> 2 \<le> sizeHeight (m_size m) \<and>
     length (m_nodes m) = meshWidth m * meshHeight m \<and>
     length (m_columns m) = meshWidth m \<and> length (m_rows m) = meshHeight m \<and>
     m_columns m ! 0 = 0 \<and> last (m_columns m) = 1 \<and>
     m_rows m ! 0 = 0 \<and> last (m_rows m) = 1 \<and>
     sorted (m_columns m) \<and> sorted (m_rows m)"

text \<open>The mesh of the first test of \<^verbatim>\<open>testMesh\<close>, of the size 2 by 2, as a concrete input.\<close>

definition exampleMesh :: BezierMesh where
  "exampleMesh =
     newBezierMesh \<lparr> rectX = 0, rectY = 0, rectWidth = 100, rectHeight = 100 \<rparr> defaultSize"

text \<open>The mesh of its third test, of the size 3 by 3.\<close>

definition exampleMesh3 :: BezierMesh where
  "exampleMesh3 =
     newBezierMesh \<lparr> rectX = 0, rectY = 0, rectWidth = 100, rectHeight = 100 \<rparr>
       \<lparr> sizeWidth = 3, sizeHeight = 3 \<rparr>"

text \<open>The meshes that a constructor call and subdivisions produce.\<close>

inductive reachable :: "BezierMesh \<Rightarrow> bool" where
  constructed: "2 \<le> sizeWidth sz \<Longrightarrow> 2 \<le> sizeHeight sz \<Longrightarrow> reachable (newBezierMesh mapRect sz)"
| subdividedRow: "reachable m \<Longrightarrow> subdivideRow t m = Some m' \<Longrightarrow> reachable m'"
| subdividedColumn: "reachable m \<Longrightarrow> subdivideColumn t m = Some m' \<Longrightarrow> reachable m'"

subsection \<open>Inverse mapping solver\<close>

definition pow3 :: "real \<Rightarrow> real" where
  "pow3 x = x * x * x"

record Params2D =
  p0 :: QPointF
  p1 :: QPointF
  p2 :: QPointF
  p3 :: QPointF
  q0 :: QPointF
  q1 :: QPointF
  q2 :: QPointF
  q3 :: QPointF
  r0 :: QPointF
  r1 :: QPointF
  r2 :: QPointF
  r3 :: QPointF
  s0 :: QPointF
  s1 :: QPointF
  s2 :: QPointF
  s3 :: QPointF
  dstPoint :: QPointF

definition meshForwardMapping :: "real \<Rightarrow> real \<Rightarrow> Params2D \<Rightarrow> QPointF" where
  "meshForwardMapping u v p =
     r0 p
     + (pow3 u * v) *\<^sub>R (p0 p - 3 *\<^sub>R p1 p + 3 *\<^sub>R p2 p - p3 p - q0 p + 3 *\<^sub>R q1 p - 3 *\<^sub>R q2 p + q3 p)
     + pow3 u *\<^sub>R (- p0 p + 3 *\<^sub>R p1 p - 3 *\<^sub>R p2 p + p3 p)
     + (pow2 u * v) *\<^sub>R (- 3 *\<^sub>R p0 p + 6 *\<^sub>R p1 p - 3 *\<^sub>R p2 p + 3 *\<^sub>R q0 p - 6 *\<^sub>R q1 p + 3 *\<^sub>R q2 p)
     + pow2 u *\<^sub>R (3 *\<^sub>R p0 p - 6 *\<^sub>R p1 p + 3 *\<^sub>R p2 p)
     + (u * pow3 v) *\<^sub>R (r0 p - 3 *\<^sub>R r1 p + 3 *\<^sub>R r2 p - r3 p - s0 p + 3 *\<^sub>R s1 p - 3 *\<^sub>R s2 p + s3 p)
     + (u * pow2 v) *\<^sub>R (- 3 *\<^sub>R r0 p + 6 *\<^sub>R r1 p - 3 *\<^sub>R r2 p + 3 *\<^sub>R s0 p - 6 *\<^sub>R s1 p + 3 *\<^sub>R s2 p)
     + (u * v) *\<^sub>R (2 *\<^sub>R p0 p - 3 *\<^sub>R p1 p + p3 p - 2 *\<^sub>R q0 p + 3 *\<^sub>R q1 p - q3 p
                   + 3 *\<^sub>R r0 p - 3 *\<^sub>R r1 p - 3 *\<^sub>R s0 p + 3 *\<^sub>R s1 p)
     + u *\<^sub>R (- 2 *\<^sub>R p0 p + 3 *\<^sub>R p1 p - p3 p - r0 p + s0 p)
     + pow3 v *\<^sub>R (- r0 p + 3 *\<^sub>R r1 p - 3 *\<^sub>R r2 p + r3 p)
     + pow2 v *\<^sub>R (3 *\<^sub>R r0 p - 6 *\<^sub>R r1 p + 3 *\<^sub>R r2 p)
     + v *\<^sub>R (- 3 *\<^sub>R r0 p + 3 *\<^sub>R r1 p)"

definition meshForwardMappingDiffU :: "real \<Rightarrow> real \<Rightarrow> Params2D \<Rightarrow> QPointF" where
  "meshForwardMappingDiffU u v p =
     - 2 *\<^sub>R p0 p + 3 *\<^sub>R p1 p - p3 p - r0 p + s0 p
     + (pow2 u * v) *\<^sub>R (3 *\<^sub>R p0 p - 9 *\<^sub>R p1 p + 9 *\<^sub>R p2 p - 3 *\<^sub>R p3 p
                         - 3 *\<^sub>R q0 p + 9 *\<^sub>R q1 p - 9 *\<^sub>R q2 p + 3 *\<^sub>R q3 p)
     + pow2 u *\<^sub>R (- 3 *\<^sub>R p0 p + 9 *\<^sub>R p1 p - 9 *\<^sub>R p2 p + 3 *\<^sub>R p3 p)
     + (u * v) *\<^sub>R (- 6 *\<^sub>R p0 p + 12 *\<^sub>R p1 p - 6 *\<^sub>R p2 p + 6 *\<^sub>R q0 p - 12 *\<^sub>R q1 p + 6 *\<^sub>R q2 p)
     + u *\<^sub>R (6 *\<^sub>R p0 p - 12 *\<^sub>R p1 p + 6 *\<^sub>R p2 p)
     + pow3 v *\<^sub>R (r0 p - 3 *\<^sub>R r1 p + 3 *\<^sub>R r2 p - r3 p - s0 p + 3 *\<^sub>R s1 p - 3 *\<^sub>R s2 p + s3 p)
     + pow2 v *\<^sub>R (- 3 *\<^sub>R r0 p + 6 *\<^sub>R r1 p - 3 *\<^sub>R r2 p + 3 *\<^sub>R s0 p - 6 *\<^sub>R s1 p + 3 *\<^sub>R s2 p)
     + v *\<^sub>R (2 *\<^sub>R p0 p - 3 *\<^sub>R p1 p + p3 p - 2 *\<^sub>R q0 p + 3 *\<^sub>R q1 p - q3 p
             + 3 *\<^sub>R r0 p - 3 *\<^sub>R r1 p - 3 *\<^sub>R s0 p + 3 *\<^sub>R s1 p)"

definition meshForwardMappingDiffV :: "real \<Rightarrow> real \<Rightarrow> Params2D \<Rightarrow> QPointF" where
  "meshForwardMappingDiffV u v p =
     - 3 *\<^sub>R r0 p + 3 *\<^sub>R r1 p
     + pow3 u *\<^sub>R (p0 p - 3 *\<^sub>R p1 p + 3 *\<^sub>R p2 p - p3 p - q0 p + 3 *\<^sub>R q1 p - 3 *\<^sub>R q2 p + q3 p)
     + pow2 u *\<^sub>R (- 3 *\<^sub>R p0 p + 6 *\<^sub>R p1 p - 3 *\<^sub>R p2 p + 3 *\<^sub>R q0 p - 6 *\<^sub>R q1 p + 3 *\<^sub>R q2 p)
     + (u * pow2 v) *\<^sub>R (3 *\<^sub>R r0 p - 9 *\<^sub>R r1 p + 9 *\<^sub>R r2 p - 3 *\<^sub>R r3 p
                         - 3 *\<^sub>R s0 p + 9 *\<^sub>R s1 p - 9 *\<^sub>R s2 p + 3 *\<^sub>R s3 p)
     + (u * v) *\<^sub>R (- 6 *\<^sub>R r0 p + 12 *\<^sub>R r1 p - 6 *\<^sub>R r2 p + 6 *\<^sub>R s0 p - 12 *\<^sub>R s1 p + 6 *\<^sub>R s2 p)
     + u *\<^sub>R (2 *\<^sub>R p0 p - 3 *\<^sub>R p1 p + p3 p - 2 *\<^sub>R q0 p + 3 *\<^sub>R q1 p - q3 p
             + 3 *\<^sub>R r0 p - 3 *\<^sub>R r1 p - 3 *\<^sub>R s0 p + 3 *\<^sub>R s1 p)
     + pow2 v *\<^sub>R (- 3 *\<^sub>R r0 p + 9 *\<^sub>R r1 p - 9 *\<^sub>R r2 p + 3 *\<^sub>R r3 p)
     + v *\<^sub>R (6 *\<^sub>R r0 p - 12 *\<^sub>R r1 p + 6 *\<^sub>R r2 p)"

text \<open>
  The objective \<^verbatim>\<open>my_f\<close> and its gradient \<^verbatim>\<open>my_df\<close> (\<^verbatim>\<open>my_fdf\<close> computes the
  same two values); a vector of GSL of length two is a pair.
\<close>

definition my_f :: "real \<times> real \<Rightarrow> Params2D \<Rightarrow> real" where
  "my_f x params =
     (let S = meshForwardMapping (fst x) (snd x) params
      in kisSquareDistance S (dstPoint params))"

definition my_df :: "real \<times> real \<Rightarrow> Params2D \<Rightarrow> real \<times> real" where
  "my_df x params =
     (let S = meshForwardMapping (fst x) (snd x) params;
          dU = meshForwardMappingDiffU (fst x) (snd x) params;
          dV = meshForwardMappingDiffV (fst x) (snd x) params
      in (2 * (xp S - xp (dstPoint params)) * xp dU + 2 * (yp S - yp (dstPoint params)) * yp dU,
          2 * (xp S - xp (dstPoint params)) * xp dV + 2 * (yp S - yp (dstPoint params)) * yp dV))"

text \<open>The parameters that \<^verbatim>\<open>calculateLocalPos\<close> reads from the patch.\<close>

definition patchParams :: "BezierPatch \<Rightarrow> QPointF \<Rightarrow> Params2D" where
  "patchParams patch dst =
     \<lparr> p0 = points patch TL, p1 = points patch TL_HC, p2 = points patch TR_HC, p3 = points patch TR,
       q0 = points patch BL, q1 = points patch BL_HC, q2 = points patch BR_HC, q3 = points patch BR,
       r0 = points patch TL, r1 = points patch TL_VC, r2 = points patch BL_VC, r3 = points patch BL,
       s0 = points patch TR, s1 = points patch TR_VC, s2 = points patch BR_VC, s3 = points patch BR,
       dstPoint = dst \<rparr>"

text \<open>
  The minimizer is the GSL library's (\<^verbatim>\<open>gsl_multimin_fdfminimizer\<close>), which is not
  part of the program: it is a parameter. \<open>'s\<close> is its state;
  \<open>fdfminimizer_set\<close> takes the objective, its gradient and the starting point,
  \<open>fdfminimizer_iterate\<close> returns a status and the next state, \<open>test_gradient\<close> is
  \<^verbatim>\<open>gsl_multimin_test_gradient (s->gradient, 1e-4)\<close> and \<open>minimizer_x\<close> is \<^verbatim>\<open>s->x\<close>.
\<close>

record 's Minimizer =
  fdfminimizer_set :: "(real \<times> real \<Rightarrow> real) \<Rightarrow> (real \<times> real \<Rightarrow> real \<times> real) \<Rightarrow> real \<times> real \<Rightarrow> 's"
  fdfminimizer_iterate :: "'s \<Rightarrow> int \<times> 's"
  test_gradient :: "'s \<Rightarrow> int"
  minimizer_x :: "'s \<Rightarrow> real \<times> real"

definition GSL_SUCCESS :: int where
  "GSL_SUCCESS = 0"

definition GSL_CONTINUE :: int where
  "GSL_CONTINUE = - 2"

text \<open>
  The \<^verbatim>\<open>do ... while\<close> loop of \<^verbatim>\<open>calculateLocalPos\<close>: the state is the minimizer,
  \<open>iter\<close> and \<open>result\<close>; the value is the result and the number of iterations made.
\<close>

function solverLoop :: "'s Minimizer \<Rightarrow> 's \<Rightarrow> nat \<Rightarrow> QPointF \<Rightarrow> QPointF \<times> nat" where
  "solverLoop M s iter result =
     (let iter' = iter + 1;
          st = fdfminimizer_iterate M s
      in if fst st \<noteq> 0 then (result, iter')
         else let s' = snd st;
                  status = test_gradient M s';
                  result' = QPointF (fst (minimizer_x M s')) (snd (minimizer_x M s'))
              in if status = GSL_CONTINUE \<and> iter' < 10000
                 then solverLoop M s' iter' result'
                 else (result', iter'))"
  by pat_completeness auto
termination
  by (relation "measure (\<lambda>(M, s, iter, result). 10000 - iter)") auto

declare solverLoop.simps [simp del]

text \<open>
  \<^verbatim>\<open>calculateLocalPos\<close>. Before the loop the source assigns \<^verbatim>\<open>result.rx()\<close> twice
  (from \<open>s->x[0]\<close>, then from \<open>s->x[1]\<close>) and never \<^verbatim>\<open>result.ry()\<close>, which keeps the
  \<open>0\<close> of the default point.
\<close>

definition startingPoint :: "real \<times> real" where
  "startingPoint = (0.5, 0.5)"

definition calculateLocalPosIter :: "'s Minimizer \<Rightarrow> BezierPatch \<Rightarrow> QPointF \<Rightarrow> QPointF \<times> nat" where
  "calculateLocalPosIter M patch dst =
     (let p = patchParams patch dst;
          s = fdfminimizer_set M (\<lambda>x. my_f x p) (\<lambda>x. my_df x p) startingPoint;
          result0 = QPointF 0 0;
          result1 = QPointF (fst (minimizer_x M s)) (yp result0);
          result2 = QPointF (snd (minimizer_x M s)) (yp result1)
      in solverLoop M s 0 result2)"

definition calculateLocalPos :: "'s Minimizer \<Rightarrow> BezierPatch \<Rightarrow> QPointF \<Rightarrow> QPointF" where
  "calculateLocalPos M patch dst = fst (calculateLocalPosIter M patch dst)"

text \<open>
  A minimizer that makes no progress, as a concrete input: every call of
  \<open>fdfminimizer_iterate\<close> reports \<^verbatim>\<open>GSL_ENOPROG\<close> (27) and leaves the state, which is
  the current point, as it is. GSL's BFGS minimizer reports this status at a point where
  the gradient of the objective is zero.
\<close>

definition GSL_ENOPROG :: int where
  "GSL_ENOPROG = 27"

definition stalledMinimizer :: "(real \<times> real) Minimizer" where
  "stalledMinimizer =
     \<lparr> fdfminimizer_set = (\<lambda>f df x. x),
       fdfminimizer_iterate = (\<lambda>s. (GSL_ENOPROG, s)),
       test_gradient = (\<lambda>s. GSL_CONTINUE),
       minimizer_x = (\<lambda>s. s) \<rparr>"

section \<open>Properties\<close>

subsection \<open>Points and the geometry primitives\<close>

lemma xp_simps [simp]:
  "xp 0 = 0" "xp (a + b) = xp a + xp b" "xp (a - b) = xp a - xp b"
  "xp (- a) = - xp a" "xp (c *\<^sub>R a) = c * xp a"
  by (simp_all add: zero_QPointF_def plus_QPointF_def minus_QPointF_def
      uminus_QPointF_def scaleR_QPointF_def)

lemma yp_simps [simp]:
  "yp 0 = 0" "yp (a + b) = yp a + yp b" "yp (a - b) = yp a - yp b"
  "yp (- a) = - yp a" "yp (c *\<^sub>R a) = c * yp a"
  by (simp_all add: zero_QPointF_def plus_QPointF_def minus_QPointF_def
      uminus_QPointF_def scaleR_QPointF_def)

lemma deCasteljau_unfold:
  "deCasteljau a0 a1 a2 a3 t =
     (let b0 = (1 - t) *\<^sub>R a0 + t *\<^sub>R a1;
          b1 = (1 - t) *\<^sub>R a1 + t *\<^sub>R a2;
          b2 = (1 - t) *\<^sub>R a2 + t *\<^sub>R a3;
          c0 = (1 - t) *\<^sub>R b0 + t *\<^sub>R b1;
          c1 = (1 - t) *\<^sub>R b1 + t *\<^sub>R b2;
          e0 = (1 - t) *\<^sub>R c0 + t *\<^sub>R c1
      in (b0, c0, e0, c1, b2))"
  by (simp add: deCasteljau_def deCasteljau_pass_def eval_nat_numeral upt_rec Let_def)

lemma deCasteljau_split_point:
  "fst (snd (snd (deCasteljau a0 a1 a2 a3 t))) = bezierCurve a0 a1 a2 a3 t"
  by (rule QPointF.expand)
    (simp add: deCasteljau_unfold bezierCurve_def pow2_def Let_def algebra_simps)

lemma deCasteljau_left_curve:
  assumes "deCasteljau a0 a1 a2 a3 t = (b, c, e, f, g)"
  shows "bezierCurve a0 b c e s = bezierCurve a0 a1 a2 a3 (t * s)"
proof -
  from assms have b: "b = (1 - t) *\<^sub>R a0 + t *\<^sub>R a1"
    and c: "c = (1 - t) *\<^sub>R ((1 - t) *\<^sub>R a0 + t *\<^sub>R a1) + t *\<^sub>R ((1 - t) *\<^sub>R a1 + t *\<^sub>R a2)"
    by (auto simp add: deCasteljau_unfold Let_def)
  have e: "e = bezierCurve a0 a1 a2 a3 t"
    using deCasteljau_split_point [of a0 a1 a2 a3 t] assms by simp
  show ?thesis
    unfolding b c e
    by (rule QPointF.expand) (simp add: bezierCurve_def pow2_def Let_def algebra_simps)
qed

lemma deCasteljau_right_curve:
  assumes "deCasteljau a0 a1 a2 a3 t = (b, c, e, f, g)"
  shows "bezierCurve e f g a3 s = bezierCurve a0 a1 a2 a3 (t + (1 - t) * s)"
proof -
  from assms have g: "g = (1 - t) *\<^sub>R a2 + t *\<^sub>R a3"
    and f: "f = (1 - t) *\<^sub>R ((1 - t) *\<^sub>R a1 + t *\<^sub>R a2) + t *\<^sub>R ((1 - t) *\<^sub>R a2 + t *\<^sub>R a3)"
    by (auto simp add: deCasteljau_unfold Let_def)
  have e: "e = bezierCurve a0 a1 a2 a3 t"
    using deCasteljau_split_point [of a0 a1 a2 a3 t] assms by simp
  show ?thesis
    unfolding g f e
    by (rule QPointF.expand) (simp add: bezierCurve_def pow2_def Let_def algebra_simps)
qed

subsection \<open>The loops of the samplers\<close>

lemma gridLoop_length: "length (gridLoop w h f) = w * h"
  by (induction h) (simp_all add: gridLoop_def)

lemma gridLoop_Suc:
  "gridLoop w (Suc h) f = gridLoop w h f @ map (\<lambda>x. f x h) [0..<w]"
  by (simp add: gridLoop_def)

lemma grid_index_less: "x < w \<Longrightarrow> y < h \<Longrightarrow> y * w + x < w * (h::nat)"
proof -
  assume a: "x < w" "y < h"
  then have "y * w + x < y * w + w" by simp
  also have "\<dots> = (Suc y) * w" by simp
  also from a have "\<dots> \<le> h * w" by (intro mult_le_mono1) simp
  finally show ?thesis by (simp add: mult.commute)
qed

lemma gridLoop_nth: "x < w \<Longrightarrow> y < h \<Longrightarrow> gridLoop w h f ! (y * w + x) = f x y"
proof (induction h)
  case 0
  then show ?case by simp
next
  case (Suc h)
  show ?case
  proof (cases "y < h")
    case True
    with Suc.prems have "y * w + x < w * h"
      by (simp add: grid_index_less)
    with Suc True show ?thesis
      by (simp add: gridLoop_Suc nth_append gridLoop_length)
  next
    case False
    with Suc.prems have "y = h" by simp
    with Suc.prems show ?thesis
      by (simp add: gridLoop_Suc nth_append gridLoop_length mult.commute)
  qed
qed

subsection \<open>Evaluation on concrete inputs\<close>

lemma sqrt_16 [simp]: "sqrt 16 = 4"
  using real_sqrt_abs [of 4] by simp

lemma sqrt_25_4 [simp]: "sqrt (25 / 4) = 5 / 2"
  using real_sqrt_abs [of "5 / 2"] by (simp add: power2_eq_square)

lemma QPointF_ops:
  "QPointF a b + QPointF c d = QPointF (a + c) (b + d)"
  "QPointF a b - QPointF c d = QPointF (a - c) (b - d)"
  "r *\<^sub>R QPointF a b = QPointF (r * a) (r * b)"
  by (simp_all add: plus_QPointF_def minus_QPointF_def scaleR_QPointF_def)

lemmas geom_defs = minStepSize_def kisDistance_def kisSquareDistance_def pow2_def
  divide_qreal_def isLinearSegment_def norm2D_def crossProduct_def bezierCurve_def
  bezierCurveDeriv_def lerp_def Let_def QPointF_ops

lemma examplePatch_horizontalSteps: "horizontalSteps examplePatch = Some [0, 1 / 2, 1]"
  by (simp add: horizontalSteps_def examplePatch_def linearizeCurve_def linearizeLoop.simps
      geom_defs mergeSteps_def qFuzzyCompare_def)

lemma examplePatch_verticalSteps: "verticalSteps examplePatch = Some [0, 1 / 2, 1]"
  by (simp add: verticalSteps_def examplePatch_def linearizeCurve_def linearizeLoop.simps
      geom_defs mergeSteps_def qFuzzyCompare_def)

lemma examplePatch_transfPoint:
  "transfPoint examplePatch 0 0 = QPointF 0 0"
  "transfPoint examplePatch (1 / 2) 0 = QPointF 2 (3 / 2)"
  "transfPoint examplePatch 1 0 = QPointF 4 0"
  "transfPoint examplePatch 0 (1 / 2) = QPointF (3 / 2) 2"
  "transfPoint examplePatch (1 / 2) (1 / 2) = QPointF (7 / 2) (7 / 2)"
  "transfPoint examplePatch 1 (1 / 2) = QPointF (11 / 2) 2"
  "transfPoint examplePatch 0 1 = QPointF 0 4"
  "transfPoint examplePatch (1 / 2) 1 = QPointF 2 (11 / 2)"
  "transfPoint examplePatch 1 1 = QPointF 4 4"
  by (simp_all add: transfPoint_def examplePatch_def geom_defs)

lemma gridLoop_3_3:
  "gridLoop 3 3 f = [f 0 0, f 1 0, f 2 0, f 0 1, f 1 1, f 2 1, f 0 2, f 1 2, f 2 2]"
  "gridLoop (Suc (Suc (Suc 0))) (Suc (Suc (Suc 0))) f =
     [f 0 0, f 1 0, f 2 0, f 0 1, f 1 1, f 2 1, f 0 2, f 1 2, f 2 2]"
  by (simp_all add: gridLoop_def eval_nat_numeral upt_rec)

lemma examplePatch_originalRect:
  "originalRect examplePatch = \<lparr> rectX = 0, rectY = 0, rectWidth = 4, rectHeight = 4 \<rparr>"
  by (simp add: examplePatch_def)

lemma examplePatch_sampleIrregularGrid:
  "sampleIrregularGrid examplePatch [] [] =
     Some (\<lparr> sizeWidth = 3, sizeHeight = 3 \<rparr>,
           [QPointF 0 0, QPointF 2 0, QPointF 4 0, QPointF 0 2, QPointF 2 2,
            QPointF 4 2, QPointF 0 4, QPointF 2 4, QPointF 4 4],
           [QPointF 0 0, QPointF 2 (3 / 2), QPointF 4 0, QPointF (3 / 2) 2,
            QPointF (7 / 2) (7 / 2), QPointF (11 / 2) 2, QPointF 0 4,
            QPointF 2 (11 / 2), QPointF 4 4])"
  by (simp add: sampleIrregularGrid_def examplePatch_horizontalSteps
      examplePatch_verticalSteps gridLoop_3_3 examplePatch_transfPoint
      origPoint_def relativeToAbsolute_def examplePatch_originalRect)

lemma examplePatch_dstBoundingRect:
  "dstBoundingRect examplePatch = \<lparr> rectX = 0, rectY = 0, rectWidth = 6, rectHeight = 6 \<rparr>"
  by (simp add: dstBoundingRect_def controlPointTypes_def examplePatch_def)

lemma examplePatch_regularGridSize:
  "regularGridSize examplePatch (QPointF 2 2) = \<lparr> sizeWidth = 3, sizeHeight = 3 \<rparr>"
  by (simp add: regularGridSize_def examplePatch_dstBoundingRect qCeil_def)

lemma examplePatch_sampleRegularGrid:
  "sampleRegularGrid examplePatch [] [] (QPointF 2 2) =
     Some (\<lparr> sizeWidth = 3, sizeHeight = 3 \<rparr>,
           [QPointF 0 0, QPointF 2 0, QPointF 4 0, QPointF 0 2, QPointF 2 2,
            QPointF 4 2, QPointF 0 4, QPointF 2 4, QPointF 4 4],
           [QPointF 0 0, QPointF 2 (3 / 2), QPointF 4 0, QPointF (3 / 2) 2,
            QPointF (7 / 2) (7 / 2), QPointF (11 / 2) 2, QPointF 0 4,
            QPointF 2 (11 / 2), QPointF 4 4])"
  by (simp add: sampleRegularGrid_def examplePatch_regularGridSize gridLoop_3_3
      xProportionOf_def yProportionOf_def examplePatch_transfPoint
      origPoint_def relativeToAbsolute_def examplePatch_originalRect)

subsection \<open>What the samplers compute\<close>

lemma sampleIrregularGrid_transf_nth:
  assumes "sampleIrregularGrid patch origPoints transfPoints = Some (gridSize, origPoints', transfPoints')"
    and "horizontalSteps patch = Some hs" and "verticalSteps patch = Some vs"
    and "x < length hs" and "y < length vs"
  shows "transfPoints' ! (length transfPoints + y * length hs + x)
           = transfPoint patch (hs ! x) (vs ! y)"
proof -
  from assms(1-3) have "transfPoints' = transfPoints @ gridLoop (length hs) (length vs)
      (\<lambda>x y. transfPoint patch (hs ! x) (vs ! y))"
    by (simp add: sampleIrregularGrid_def)
  with assms(4,5) show ?thesis
    by (simp add: add.assoc gridLoop_nth)
qed

lemma sampleIrregularGrid_size:
  assumes "sampleIrregularGrid patch origPoints transfPoints = Some (gridSize, origPoints', transfPoints')"
    and "horizontalSteps patch = Some hs" and "verticalSteps patch = Some vs"
  shows "gridSize = \<lparr> sizeWidth = int (length hs), sizeHeight = int (length vs) \<rparr>"
    and "length transfPoints' = length transfPoints + length hs * length vs"
    and "length origPoints' = length origPoints + length hs * length vs"
  using assms by (auto simp add: sampleIrregularGrid_def gridLoop_length)

lemma sampleRegularGrid_transf_nth:
  assumes "sampleRegularGrid patch origPoints transfPoints dstStep = Some (gridSize, origPoints', transfPoints')"
    and "x < nat (sizeWidth gridSize)" and "y < nat (sizeHeight gridSize)"
  shows "transfPoints' ! (length transfPoints + y * nat (sizeWidth gridSize) + x)
           = transfPoint patch (xProportionOf gridSize x) (yProportionOf gridSize y)"
proof -
  from assms(1) have "transfPoints' = transfPoints @ gridLoop (nat (sizeWidth gridSize))
      (nat (sizeHeight gridSize))
      (\<lambda>x y. transfPoint patch (xProportionOf gridSize x) (yProportionOf gridSize y))"
    by (auto simp add: sampleRegularGrid_def Let_def split: if_splits)
  with assms(2,3) show ?thesis
    by (simp add: add.assoc gridLoop_nth)
qed

lemma meshForwardMapping_transfPoint:
  "meshForwardMapping u v (patchParams patch dst) = transfPoint patch u v"
  apply (rule QPointF.expand)
  apply (simp add: meshForwardMapping_def patchParams_def transfPoint_def lerp_def
      bezierCurve_def pow2_def pow3_def Let_def)
  apply (simp add: algebra_simps)
  done

lemma transfPoint_left: "transfPoint patch 0 y =
    bezierCurve (points patch TL) (points patch TL_VC) (points patch BL_VC) (points patch BL) y"
  by (rule QPointF.expand)
    (simp add: transfPoint_def lerp_def bezierCurve_def pow2_def Let_def algebra_simps)

lemma transfPoint_right: "transfPoint patch 1 y =
    bezierCurve (points patch TR) (points patch TR_VC) (points patch BR_VC) (points patch BR) y"
  by (rule QPointF.expand)
    (simp add: transfPoint_def lerp_def bezierCurve_def pow2_def Let_def algebra_simps)

lemma transfPoint_top: "transfPoint patch x 0 =
    bezierCurve (points patch TL) (points patch TL_HC) (points patch TR_HC) (points patch TR) x"
  by (rule QPointF.expand)
    (simp add: transfPoint_def lerp_def bezierCurve_def pow2_def Let_def algebra_simps)

lemma transfPoint_bottom: "transfPoint patch x 1 =
    bezierCurve (points patch BL) (points patch BL_HC) (points patch BR_HC) (points patch BR) x"
  by (rule QPointF.expand)
    (simp add: transfPoint_def lerp_def bezierCurve_def pow2_def Let_def algebra_simps)

subsection \<open>The segment test\<close>

text \<open>
  What the code decides, for every input: the segment is linear exactly when neither
  signed offset is above 1.
\<close>

lemma isLinearSegment_iff:
  "isLinearSegment a d0 b d1 \<longleftrightarrow>
     1 / 3 / norm2D (b - a) * crossProduct (b - a) d0 \<le> 1 \<and>
     1 / 3 / norm2D (b - a) * crossProduct (b - a) d1 \<le> 1"
  by (auto simp add: isLinearSegment_def Let_def)

subsection \<open>The solver loop\<close>

text \<open>The loop makes at least one and at most 10000 iterations.\<close>

lemma solverLoop_iterations:
  "iter < 10000 \<Longrightarrow> iter < snd (solverLoop M s iter result) \<and> snd (solverLoop M s iter result) \<le> 10000"
proof (induction M s iter result rule: solverLoop.induct)
  case (1 M s iter result)
  show ?case
  proof (cases "fst (fdfminimizer_iterate M s) = 0
      \<and> test_gradient M (snd (fdfminimizer_iterate M s)) = GSL_CONTINUE \<and> iter + 1 < 10000")
    case True
    with "1.IH" [OF refl refl _ refl refl refl] "1.prems" show ?thesis
      by (subst (1 2) solverLoop.simps) (simp add: Let_def)
  next
    case False
    with "1.prems" show ?thesis
      by (subst (1 2) solverLoop.simps) (auto simp add: Let_def)
  qed
qed

lemma calculateLocalPos_iterations:
  "1 \<le> snd (calculateLocalPosIter M patch dst) \<and> snd (calculateLocalPosIter M patch dst) \<le> 10000"
  using solverLoop_iterations [of 0] by (simp add: calculateLocalPosIter_def Let_def Suc_le_eq)

subsection \<open>The loops of the subdivisions\<close>

lemma grid_index_unique:
  fixes w :: nat
  assumes "c < w" "c' < w" "r * w + c = r' * w + c'"
  shows "r = r' \<and> c = c'"
proof -
  from assms(1) have "(r * w + c) div w = r" "(r * w + c) mod w = c" by simp_all
  moreover from assms(2) have "(r' * w + c') div w = r'" "(r' * w + c') mod w = c'" by simp_all
  ultimately show ?thesis using assms(3) by metis
qed

text \<open>
  A loop that, in pass \<open>j\<close>, reads the two elements \<open>ia j\<close> and \<open>ib j\<close> of a vector and
  the element \<open>j\<close> of a second one, and writes the three back: when no position is met
  twice, each pass sees the original elements.
\<close>

lemma pair_loop:
  fixes F :: "'a \<Rightarrow> 'a \<Rightarrow> 'b \<Rightarrow> 'a \<times> 'a \<times> 'b"
  assumes dist: "\<And>i j. i < n \<Longrightarrow> j < n \<Longrightarrow> ia i \<noteq> ib j"
    and inja: "\<And>i j. i < n \<Longrightarrow> j < n \<Longrightarrow> ia i = ia j \<Longrightarrow> i = j"
    and injb: "\<And>i j. i < n \<Longrightarrow> j < n \<Longrightarrow> ib i = ib j \<Longrightarrow> i = j"
    and bnd: "\<And>j. j < n \<Longrightarrow> ia j < length nodes \<and> ib j < length nodes"
    and "k \<le> n"
    and step: "\<And>j s. step j s = (let r = F (fst s ! ia j) (fst s ! ib j) (snd s ! j)
                       in (((fst s)[ia j := fst r])[ib j := fst (snd r)],
                           (snd s)[j := snd (snd r)]))"
    and st: "st = fold step [0..<k] (nodes, replicate n e)"
  shows "length (fst st) = length nodes \<and> length (snd st) = n \<and>
     (\<forall>j<k. fst st ! ia j = fst (F (nodes ! ia j) (nodes ! ib j) e) \<and>
             fst st ! ib j = fst (snd (F (nodes ! ia j) (nodes ! ib j) e)) \<and>
             snd st ! j = snd (snd (F (nodes ! ia j) (nodes ! ib j) e))) \<and>
     (\<forall>j. k \<le> j \<longrightarrow> j < n \<longrightarrow>
             fst st ! ia j = nodes ! ia j \<and> fst st ! ib j = nodes ! ib j \<and> snd st ! j = e) \<and>
     (\<forall>i<length nodes. (\<forall>j<n. i \<noteq> ia j \<and> i \<noteq> ib j) \<longrightarrow> fst st ! i = nodes ! i)"
  using \<open>k \<le> n\<close> st
proof (induction k arbitrary: st)
  case 0
  then show ?case by simp
next
  case (Suc k)
  define st0 where "st0 = fold step [0..<k] (nodes, replicate n e)"
  from Suc.prems have kn: "k < n" by simp
  have IH: "length (fst st0) = length nodes \<and> length (snd st0) = n \<and>
     (\<forall>j<k. fst st0 ! ia j = fst (F (nodes ! ia j) (nodes ! ib j) e) \<and>
             fst st0 ! ib j = fst (snd (F (nodes ! ia j) (nodes ! ib j) e)) \<and>
             snd st0 ! j = snd (snd (F (nodes ! ia j) (nodes ! ib j) e))) \<and>
     (\<forall>j. k \<le> j \<longrightarrow> j < n \<longrightarrow>
             fst st0 ! ia j = nodes ! ia j \<and> fst st0 ! ib j = nodes ! ib j \<and> snd st0 ! j = e) \<and>
     (\<forall>i<length nodes. (\<forall>j<n. i \<noteq> ia j \<and> i \<noteq> ib j) \<longrightarrow> fst st0 ! i = nodes ! i)"
    using Suc.IH [of st0] kn by (simp add: st0_def)
  define r where "r = F (nodes ! ia k) (nodes ! ib k) e"
  from IH kn have reads: "fst st0 ! ia k = nodes ! ia k" "fst st0 ! ib k = nodes ! ib k"
      "snd st0 ! k = e"
    by auto
  have st_eq: "st = (((fst st0)[ia k := fst r])[ib k := fst (snd r)], (snd st0)[k := snd (snd r)])"
  proof -
    have "st = step k st0"
      using Suc.prems(2) by (simp add: st0_def)
    then show ?thesis
      by (simp add: step Let_def reads r_def)
  qed
  have len: "length (fst st) = length nodes" "length (snd st) = n"
    using IH by (simp_all add: st_eq)
  have bk: "ia k < length nodes" "ib k < length nodes" "ia k \<noteq> ib k"
    using bnd [OF kn] dist [OF kn kn] by simp_all
  have done_part: "fst st ! ia j = fst (F (nodes ! ia j) (nodes ! ib j) e) \<and>
             fst st ! ib j = fst (snd (F (nodes ! ia j) (nodes ! ib j) e)) \<and>
             snd st ! j = snd (snd (F (nodes ! ia j) (nodes ! ib j) e))" if "j < Suc k" for j
  proof (cases "j = k")
    case True
    with bk IH kn show ?thesis
      by (simp add: st_eq r_def nth_list_update)
  next
    case False
    with that have jk: "j < k" by simp
    then have jn: "j < n" using kn by simp
    have "ia j \<noteq> ia k" "ia j \<noteq> ib k" "ib j \<noteq> ia k" "ib j \<noteq> ib k"
      using inja [OF jn kn] injb [OF jn kn] dist [OF jn kn] dist [OF kn jn] False by auto
    with IH jk False show ?thesis
      by (simp add: st_eq nth_list_update)
  qed
  have todo_part: "fst st ! ia j = nodes ! ia j \<and> fst st ! ib j = nodes ! ib j \<and> snd st ! j = e"
    if "Suc k \<le> j" "j < n" for j
  proof -
    from that have jk: "j \<noteq> k" "k \<le> j" by simp_all
    have "ia j \<noteq> ia k" "ia j \<noteq> ib k" "ib j \<noteq> ia k" "ib j \<noteq> ib k"
      using inja [OF that(2) kn] injb [OF that(2) kn] dist [OF that(2) kn] dist [OF kn that(2)] jk
      by auto
    with IH jk that show ?thesis
      by (simp add: st_eq nth_list_update)
  qed
  have other_part: "fst st ! i = nodes ! i"
    if "i < length nodes" "\<forall>j<n. i \<noteq> ia j \<and> i \<noteq> ib j" for i
  proof -
    from that kn have "i \<noteq> ia k" "i \<noteq> ib k" by auto
    with IH that show ?thesis
      by (simp add: st_eq nth_list_update)
  qed
  from len done_part todo_part other_part show ?case by blast
qed

subsection \<open>upper\_bound\<close>

lemma upper_bound_take: "take (upper_bound xs t) xs = takeWhile (\<lambda>x. \<not> t < x) xs"
  by (simp add: upper_bound_def takeWhile_eq_take [symmetric])

lemma upper_bound_range:
  assumes "xs \<noteq> []" and "xs ! 0 \<le> t" and "t < last xs"
  shows "0 < upper_bound xs t" and "upper_bound xs t < length xs"
    and "xs ! (upper_bound xs t - 1) \<le> t" and "t < xs ! upper_bound xs t"
proof -
  let ?P = "\<lambda>x. \<not> t < x"
  from assms(1,2) show pos: "0 < upper_bound xs t"
    by (cases xs) (simp_all add: upper_bound_def)
  have "upper_bound xs t \<noteq> length xs"
  proof
    assume "upper_bound xs t = length xs"
    then have "takeWhile ?P xs = xs"
      by (metis upper_bound_take take_all_iff order_refl)
    then have "?P (last xs)"
      by (metis assms(1) last_in_set set_takeWhileD)
    with assms(3) show False by simp
  qed
  moreover have "upper_bound xs t \<le> length xs"
    by (simp add: upper_bound_def length_takeWhile_le)
  ultimately show lt: "upper_bound xs t < length xs" by simp
  from lt show "t < xs ! upper_bound xs t"
    using nth_length_takeWhile [of ?P xs] by (simp add: upper_bound_def)
  from pos have "upper_bound xs t - 1 < length (takeWhile ?P xs)"
    by (simp add: upper_bound_def)
  then have "?P (takeWhile ?P xs ! (upper_bound xs t - 1))"
    by (metis nth_mem set_takeWhileD)
  moreover have "takeWhile ?P xs ! (upper_bound xs t - 1) = xs ! (upper_bound xs t - 1)"
    using pos by (simp add: upper_bound_take [symmetric])
  ultimately show "xs ! (upper_bound xs t - 1) \<le> t" by simp
qed

lemma upper_bound_between:
  assumes "sorted xs" and "Suc i < length xs" and "xs ! i \<le> t" and "t < xs ! Suc i"
  shows "upper_bound xs t = Suc i"
proof -
  have "takeWhile (\<lambda>x. \<not> t < x) xs = take (Suc i) xs"
  proof (rule takeWhile_eq_take_P_nth)
    fix j assume "j < Suc i" "j < length xs"
    then have "xs ! j \<le> xs ! i"
      using assms(1,2) by (simp add: sorted_nth_mono)
    with assms(3) show "\<not> t < xs ! j" by simp
  next
    assume "Suc i < length xs"
    with assms(4) show "\<not> \<not> t < xs ! Suc i" by simp
  qed
  with assms(2) show ?thesis
    by (simp add: upper_bound_def)
qed

lemma sorted_insert_upper_bound:
  assumes "sorted xs"
  shows "sorted (take (upper_bound xs t) xs @ [t] @ drop (upper_bound xs t) xs)"
proof -
  let ?P = "\<lambda>x. \<not> t < x"
  have tk: "take (upper_bound xs t) xs = takeWhile ?P xs"
    by (rule upper_bound_take)
  have dr: "drop (upper_bound xs t) xs = dropWhile ?P xs"
    by (simp add: upper_bound_def dropWhile_eq_drop)
  have a: "\<forall>x\<in>set (takeWhile ?P xs). x \<le> t"
    by (auto dest: set_takeWhileD)
  have b: "\<forall>x\<in>set (dropWhile ?P xs). t \<le> x"
  proof (cases "dropWhile ?P xs")
    case Nil
    then have "set (dropWhile ?P xs) = {}" by simp
    then show ?thesis by (simp only: ball_empty)
  next
    case (Cons y ys)
    then have "t < y"
      using hd_dropWhile [of ?P xs] by simp
    moreover have "sorted (dropWhile ?P xs)"
      using assms by (simp add: dr [symmetric] sorted_wrt_drop)
    ultimately show ?thesis
      using Cons by auto
  qed
  have "sorted (takeWhile ?P xs)" "sorted (dropWhile ?P xs)"
    using assms by (simp_all add: tk [symmetric] dr [symmetric] sorted_wrt_take sorted_wrt_drop)
  with a b show ?thesis
    unfolding tk dr by (fastforce simp add: sorted_append)
qed

subsection \<open>subdivideRow\<close>

lemma qFuzzyCompare_zero: "qFuzzyCompare t 0 \<longleftrightarrow> t = 0"
  by (simp add: qFuzzyCompare_def)

lemma meshInvariant_sizes:
  assumes "meshInvariant m"
  shows "2 \<le> meshWidth m" and "2 \<le> meshHeight m"
    and "int (meshWidth m) = sizeWidth (m_size m)"
    and "int (meshHeight m) = sizeHeight (m_size m)"
    and "m_rows m \<noteq> []" and "m_columns m \<noteq> []"
  using assms by (auto simp add: meshInvariant_def meshWidth_def meshHeight_def)

lemma splitRow_loop:
  assumes "Suc (Suc tr) * w \<le> length nodes"
    and "st = fold (splitRowStep w tr (Suc tr) relT) [0..<w] (nodes, replicate w emptyNode)"
  shows "length (fst st) = length nodes \<and> length (snd st) = w \<and>
     (\<forall>j<w. fst st ! (tr * w + j)
               = fst (splitCurveVertically (nodes ! (tr * w + j)) (nodes ! (Suc tr * w + j))
                       relT emptyNode) \<and>
             fst st ! (Suc tr * w + j)
               = fst (snd (splitCurveVertically (nodes ! (tr * w + j)) (nodes ! (Suc tr * w + j))
                       relT emptyNode)) \<and>
             snd st ! j
               = snd (snd (splitCurveVertically (nodes ! (tr * w + j)) (nodes ! (Suc tr * w + j))
                       relT emptyNode))) \<and>
     (\<forall>i<length nodes. (\<forall>j<w. i \<noteq> tr * w + j \<and> i \<noteq> Suc tr * w + j) \<longrightarrow>
         fst st ! i = nodes ! i)"
proof -
  have "length (fst st) = length nodes \<and> length (snd st) = w \<and>
     (\<forall>j<w. fst st ! (tr * w + j)
               = fst (splitCurveVertically (nodes ! (tr * w + j)) (nodes ! (Suc tr * w + j))
                       relT emptyNode) \<and>
             fst st ! (Suc tr * w + j)
               = fst (snd (splitCurveVertically (nodes ! (tr * w + j)) (nodes ! (Suc tr * w + j))
                       relT emptyNode)) \<and>
             snd st ! j
               = snd (snd (splitCurveVertically (nodes ! (tr * w + j)) (nodes ! (Suc tr * w + j))
                       relT emptyNode))) \<and>
     (\<forall>j. w \<le> j \<longrightarrow> j < w \<longrightarrow>
             fst st ! (tr * w + j) = nodes ! (tr * w + j) \<and>
             fst st ! (Suc tr * w + j) = nodes ! (Suc tr * w + j) \<and> snd st ! j = emptyNode) \<and>
     (\<forall>i<length nodes. (\<forall>j<w. i \<noteq> tr * w + j \<and> i \<noteq> Suc tr * w + j) \<longrightarrow>
         fst st ! i = nodes ! i)"
  proof (rule pair_loop [where F = "\<lambda>a b n. splitCurveVertically a b relT n"
        and ia = "\<lambda>j. tr * w + j" and ib = "\<lambda>j. Suc tr * w + j" and n = w and k = w
        and step = "splitRowStep w tr (Suc tr) relT"])
    show "tr * w + i \<noteq> Suc tr * w + j" if "i < w" "j < w" for i j
      using that by simp
    show "tr * w + j < length nodes \<and> Suc tr * w + j < length nodes" if "j < w" for j
      using that assms(1) by simp
    show "splitRowStep w tr (Suc tr) relT j s =
        (let r = splitCurveVertically (fst s ! (tr * w + j)) (fst s ! (Suc tr * w + j)) relT
                   (snd s ! j)
         in (((fst s)[tr * w + j := fst r])[Suc tr * w + j := fst (snd r)],
             (snd s)[j := snd (snd r)]))" for j s
      by (simp add: splitRowStep_def Let_def)
  qed (simp_all add: assms(2))
  then show ?thesis by blast
qed

lemma subdivideRow_unfold:
  assumes inv: "meshInvariant m" and t: "0 < t" "t < 1" "\<not> qFuzzyCompare t 1"
    and ub: "upper_bound (m_rows m) t = Suc tr"
    and st: "st = fold (splitRowStep (meshWidth m) tr (Suc tr)
                    ((t - m_rows m ! tr) / (m_rows m ! Suc tr - m_rows m ! tr)))
                  [0..<meshWidth m] (m_nodes m, replicate (meshWidth m) emptyNode)"
  shows "Suc tr < meshHeight m"
    and "Suc (Suc tr) * meshWidth m \<le> length (m_nodes m)"
    and "subdivideRow t m =
      Some (m\<lparr> m_nodes := take (Suc tr * meshWidth m) (fst st) @ snd st
                               @ drop (Suc tr * meshWidth m) (fst st),
               m_size := (m_size m)\<lparr> sizeHeight := sizeHeight (m_size m) + 1 \<rparr>,
               m_rows := take (Suc tr) (m_rows m) @ [t] @ drop (Suc tr) (m_rows m) \<rparr>)"
proof -
  from inv have rows: "m_rows m \<noteq> []" "m_rows m ! 0 \<le> t" "t < last (m_rows m)"
    and len: "length (m_rows m) = meshHeight m"
      "length (m_nodes m) = meshWidth m * meshHeight m"
    and w: "\<not> sizeWidth (m_size m) < 0"
    using t meshInvariant_sizes(5) [OF inv] by (simp_all add: meshInvariant_def)
  from upper_bound_range(2) [OF rows] show h: "Suc tr < meshHeight m"
    by (simp add: ub len)
  then have "Suc (Suc tr) \<le> meshHeight m" by simp
  then have "Suc (Suc tr) * meshWidth m \<le> meshHeight m * meshWidth m"
    by (rule mult_le_mono1)
  then show nodes: "Suc (Suc tr) * meshWidth m \<le> length (m_nodes m)"
    by (simp add: len mult.commute)
  from t have z: "\<not> qFuzzyCompare t 0"
    by (simp add: qFuzzyCompare_zero)
  from nodes have n': "\<not> length (m_nodes m) < meshWidth m + (meshWidth m + tr * meshWidth m)"
    by simp
  show "subdivideRow t m =
      Some (m\<lparr> m_nodes := take (Suc tr * meshWidth m) (fst st) @ snd st
                               @ drop (Suc tr * meshWidth m) (fst st),
               m_size := (m_size m)\<lparr> sizeHeight := sizeHeight (m_size m) + 1 \<rparr>,
               m_rows := take (Suc tr) (m_rows m) @ [t] @ drop (Suc tr) (m_rows m) \<rparr>)"
    using t z w h n' by (simp add: subdivideRow_def ub len Let_def st)
qed

lemma nth_insert_block:
  assumes "a \<le> length xs"
  shows "(take a xs @ ys @ drop a xs) ! i =
     (if i < a then xs ! i else if i < a + length ys then ys ! (i - a) else xs ! (i - length ys))"
proof -
  from assms have la: "length (take a xs) = a" by simp
  consider "i < a" | "\<not> i < a" "i < a + length ys" | "\<not> i < a" "\<not> i < a + length ys"
    by blast
  then show ?thesis
  proof cases
    case 1
    with assms show ?thesis by (simp add: nth_append)
  next
    case 2
    then have "i - a < length ys" by simp
    with 2 assms show ?thesis by (simp add: nth_append)
  next
    case 3
    then have "\<not> i - a < length ys" and "a + (i - a - length ys) = i - length ys"
      by simp_all
    with 3 assms show ?thesis by (simp add: nth_append)
  qed
qed

lemma grid_row_less:
  fixes w :: nat
  assumes "col < w" and "row \<le> r"
  shows "row * w + col < Suc r * w"
proof -
  from assms(1) have "row * w + col < Suc row * w" by simp
  also from assms(2) have "\<dots> \<le> Suc r * w" by (intro mult_le_mono1) simp
  finally show ?thesis .
qed

lemma subdivideRow_nodes:
  assumes inv: "meshInvariant m" and t: "0 < t" "t < 1" "\<not> qFuzzyCompare t 1"
    and ub: "upper_bound (m_rows m) t = Suc tr"
    and res: "subdivideRow t m = Some m'"
    and col: "col < meshWidth m"
    and S: "S = splitCurveVertically (mesh_node m col tr) (mesh_node m col (Suc tr))
                  ((t - m_rows m ! tr) / (m_rows m ! Suc tr - m_rows m ! tr)) emptyNode"
  shows "row < tr \<Longrightarrow> mesh_node m' col row = mesh_node m col row"
    and "mesh_node m' col tr = fst S"
    and "mesh_node m' col (Suc tr) = snd (snd S)"
    and "mesh_node m' col (Suc (Suc tr)) = fst (snd S)"
    and "Suc tr < row \<Longrightarrow> row < meshHeight m \<Longrightarrow> mesh_node m' col (Suc row) = mesh_node m col row"
proof -
  define w where "w = meshWidth m"
  define relT where "relT = (t - m_rows m ! tr) / (m_rows m ! Suc tr - m_rows m ! tr)"
  define st where "st = fold (splitRowStep w tr (Suc tr) relT) [0..<w]
                          (m_nodes m, replicate w emptyNode)"
  note u = subdivideRow_unfold [OF inv t ub st_def [unfolded w_def relT_def]]
  from u(2) have bound: "Suc (Suc tr) * w \<le> length (m_nodes m)"
    by (simp add: w_def)
  note L = splitRow_loop [OF bound st_def]
  from L have len: "length (fst st) = length (m_nodes m)" "length (snd st) = w"
    by simp_all
  from u(3) res have m': "m_nodes m' = take (Suc tr * w) (fst st) @ snd st @ drop (Suc tr * w) (fst st)"
    and "m_size m' = (m_size m)\<lparr> sizeHeight := sizeHeight (m_size m) + 1 \<rparr>"
    by (auto simp add: w_def)
  then have w': "meshWidth m' = w"
    by (simp add: meshWidth_def w_def)
  have a: "Suc tr * w \<le> length (fst st)"
    using bound len by simp
  have nth: "mesh_node m' col r =
      (if r * w + col < Suc tr * w then fst st ! (r * w + col)
       else if r * w + col < Suc tr * w + w then snd st ! (r * w + col - Suc tr * w)
       else fst st ! (r * w + col - w))" for r
    unfolding mesh_node_def w' m' using nth_insert_block [OF a, of "snd st"] len by simp
  from col have colw: "col < w" by (simp add: w_def)
  have Sj: "S = splitCurveVertically (m_nodes m ! (tr * w + col)) (m_nodes m ! (Suc tr * w + col))
                   relT emptyNode"
    by (simp add: S mesh_node_def w_def relT_def)
  have other: "fst st ! (r * w + col) = mesh_node m col r"
    if "r \<noteq> tr" "r \<noteq> Suc tr" "r < meshHeight m" for r
  proof -
    have "r * w + col < length (m_nodes m)"
      using grid_index_less [OF colw that(3)] inv
      by (simp add: meshInvariant_def w_def)
    moreover have "\<forall>j<w. r * w + col \<noteq> tr * w + j \<and> r * w + col \<noteq> Suc tr * w + j"
      using grid_index_unique [OF colw] that(1,2) by blast
    ultimately show ?thesis
      using L by (simp add: mesh_node_def w_def)
  qed
  from u(1) have h: "Suc tr < meshHeight m" .
  show "mesh_node m' col row = mesh_node m col row" if "row < tr"
  proof -
    from that have "row * w + col < Suc tr * w"
      using grid_row_less [OF colw, of row tr] by simp
    with other [of row] that h show ?thesis
      by (simp add: nth)
  qed
  have Lc: "fst st ! (tr * w + col) = fst S" "fst st ! (Suc tr * w + col) = fst (snd S)"
      "snd st ! col = snd (snd S)"
    using L colw unfolding Sj by blast+
  show "mesh_node m' col tr = fst S"
    using grid_row_less [OF colw, of tr tr] by (simp only: nth Lc if_True)
  show "mesh_node m' col (Suc tr) = snd (snd S)"
  proof -
    have "\<not> Suc tr * w + col < Suc tr * w" "Suc tr * w + col < Suc tr * w + w"
      "Suc tr * w + col - Suc tr * w = col"
      using colw by simp_all
    then show ?thesis
      by (simp only: nth Lc if_True if_False)
  qed
  show "mesh_node m' col (Suc (Suc tr)) = fst (snd S)"
  proof -
    have "\<not> Suc (Suc tr) * w + col < Suc tr * w" "\<not> Suc (Suc tr) * w + col < Suc tr * w + w"
      "Suc (Suc tr) * w + col - w = Suc tr * w + col"
      by simp_all
    then show ?thesis
      by (simp only: nth Lc if_False)
  qed
  show "mesh_node m' col (Suc row) = mesh_node m col row"
    if "Suc tr < row" "row < meshHeight m"
  proof -
    from that(1) have "Suc (Suc tr) * w \<le> row * w"
      by (intro mult_le_mono1) simp
    then have "\<not> Suc row * w + col < Suc tr * w" "\<not> Suc row * w + col < Suc tr * w + w"
      "Suc row * w + col - w = row * w + col"
      by simp_all
    with other [of row] that show ?thesis
      by (simp only: nth if_False)
  qed
qed

lemma subdivideRow_noop:
  assumes "qFuzzyCompare t 0 \<or> qFuzzyCompare t 1 \<or> \<not> (0 < t \<and> t < 1)"
  shows "subdivideRow t m = Some m"
  using assms by (auto simp add: subdivideRow_def)

lemma upper_bound_rows_Suc:
  assumes inv: "meshInvariant m" and t: "0 < t" "t < 1"
  obtains tr where "upper_bound (m_rows m) t = Suc tr"
proof -
  from inv have "m_rows m \<noteq> []" "m_rows m ! 0 \<le> t" "t < last (m_rows m)"
    using t meshInvariant_sizes(5) [OF inv] by (simp_all add: meshInvariant_def)
  from upper_bound_range(1) [OF this] obtain tr where "upper_bound (m_rows m) t = Suc tr"
    using gr0_implies_Suc by blast
  then show ?thesis by (rule that)
qed

lemma subdivideRow_grows:
  assumes inv: "meshInvariant m" and t: "0 < t" "t < 1" "\<not> qFuzzyCompare t 1"
  obtains m' where "subdivideRow t m = Some m'"
    and "m_size m' = (m_size m)\<lparr> sizeHeight := sizeHeight (m_size m) + 1 \<rparr>"
    and "m_rows m' = take (upper_bound (m_rows m) t) (m_rows m) @ [t]
                       @ drop (upper_bound (m_rows m) t) (m_rows m)"
    and "m_columns m' = m_columns m" and "m_originalRect m' = m_originalRect m"
    and "length (m_nodes m') = length (m_nodes m) + meshWidth m"
    and "meshInvariant m'"
proof -
  from upper_bound_rows_Suc [OF inv t(1,2)] obtain tr
    where ub: "upper_bound (m_rows m) t = Suc tr" .
  define st where "st = fold (splitRowStep (meshWidth m) tr (Suc tr)
                    ((t - m_rows m ! tr) / (m_rows m ! Suc tr - m_rows m ! tr)))
                  [0..<meshWidth m] (m_nodes m, replicate (meshWidth m) emptyNode)"
  define m' where "m' = m\<lparr> m_nodes := take (Suc tr * meshWidth m) (fst st) @ snd st
                               @ drop (Suc tr * meshWidth m) (fst st),
               m_size := (m_size m)\<lparr> sizeHeight := sizeHeight (m_size m) + 1 \<rparr>,
               m_rows := take (Suc tr) (m_rows m) @ [t] @ drop (Suc tr) (m_rows m) \<rparr>"
  note u = subdivideRow_unfold [OF inv t ub st_def]
  from splitRow_loop [OF u(2) st_def]
  have len: "length (fst st) = length (m_nodes m)" "length (snd st) = meshWidth m"
    by simp_all
  have res: "subdivideRow t m = Some m'"
    using u(3) by (simp add: m'_def)
  have nodes: "length (m_nodes m') = length (m_nodes m) + meshWidth m"
    using u(2) len by (simp add: m'_def)
  have w': "meshWidth m' = meshWidth m"
    by (simp add: m'_def meshWidth_def)
  have h': "meshHeight m' = Suc (meshHeight m)"
    using inv by (simp add: m'_def meshHeight_def meshInvariant_def nat_add_distrib)
  from u(1) inv have h: "Suc tr < length (m_rows m)"
    by (simp add: meshInvariant_def)
  have first: "m_rows m' ! 0 = 0"
    using inv h by (simp add: m'_def nth_append meshInvariant_def)
  have "drop (Suc tr) (m_rows m) \<noteq> []"
    using h by simp
  then have lst: "last (m_rows m') = 1"
    using inv h by (simp add: m'_def meshInvariant_def)
  have srt: "sorted (m_rows m')"
    using sorted_insert_upper_bound [of "m_rows m" t] inv
    by (simp add: m'_def ub meshInvariant_def)
  have "meshInvariant m'"
    unfolding meshInvariant_def
    using inv first lst srt nodes h' w' h
    by (simp add: meshInvariant_def) (simp add: m'_def)
  with res nodes show ?thesis
    by (intro that [of m']) (simp_all add: m'_def ub)
qed

lemma subdivideRow_invariant:
  assumes "meshInvariant m" and "subdivideRow t m = Some m'"
  shows "meshInvariant m'"
proof (cases "qFuzzyCompare t 0 \<or> qFuzzyCompare t 1 \<or> \<not> (0 < t \<and> t < 1)")
  case True
  with assms show ?thesis
    by (simp add: subdivideRow_noop)
next
  case False
  then have "0 < t" "t < 1" "\<not> qFuzzyCompare t 1" by simp_all
  from subdivideRow_grows [OF assms(1) this] assms(2) show ?thesis
    by (metis option.inject)
qed

subsection \<open>subdivideColumn\<close>

lemma insertColumn_fold:
  assumes "cs = [] \<or> pos + (length cs - 1) * w \<le> length ns"
  shows "fst (fold (insertColumnStep w) cs (ns, pos))
           = take pos ns @ interleaveColumn w cs (drop pos ns)"
  using assms
proof (induction cs arbitrary: ns pos)
  case Nil
  then show ?case by simp
next
  case (Cons c cs)
  then have pos: "pos + length cs * w \<le> length ns" by simp
  then have pl: "pos \<le> length ns" by simp
  define ns1 where "ns1 = take pos ns @ [c] @ drop pos ns"
  have step: "fold (insertColumnStep w) (c # cs) (ns, pos)
                = fold (insertColumnStep w) cs (ns1, pos + (w + 1))"
    by (simp add: insertColumnStep_def ns1_def)
  have "cs = [] \<or> pos + (w + 1) + (length cs - 1) * w \<le> length ns1"
  proof (cases cs)
    case Nil
    then show ?thesis by simp
  next
    case (Cons d ds)
    with pos pl show ?thesis by (simp add: ns1_def)
  qed
  from Cons.IH [OF this]
  have "fst (fold (insertColumnStep w) cs (ns1, pos + (w + 1)))
          = take (pos + (w + 1)) ns1 @ interleaveColumn w cs (drop (pos + (w + 1)) ns1)" .
  moreover have "take (pos + (w + 1)) ns1 = take pos ns @ [c] @ take w (drop pos ns)"
    using pl by (simp add: ns1_def)
  moreover have "drop (pos + (w + 1)) ns1 = drop w (drop pos ns)"
    using pl by (simp add: ns1_def)
  ultimately have "fst (fold (insertColumnStep w) cs (ns1, pos + (w + 1)))
      = take pos ns @ interleaveColumn w (c # cs) (drop pos ns)"
    by simp
  then show ?case
    by (simp only: step)
qed

lemma interleaveColumn_length:
  "length (interleaveColumn w cs xs) = length cs + length xs"
  by (induction cs arbitrary: xs) auto

lemma interleaveColumn_nth_new:
  "r < length cs \<Longrightarrow> r * w \<le> length xs \<Longrightarrow> interleaveColumn w cs xs ! (r * Suc w) = cs ! r"
proof (induction cs arbitrary: r xs)
  case Nil
  then show ?case by simp
next
  case (Cons c cs)
  show ?case
  proof (cases r)
    case 0
    then show ?thesis by simp
  next
    case (Suc r')
    with Cons.prems have w: "w \<le> length xs" and r': "r' < length cs"
      and fit: "r' * w \<le> length (drop w xs)"
      by simp_all
    from w have lt: "length (take w xs) = w" by simp
    have "r * Suc w = Suc (w + r' * Suc w)"
      by (simp add: Suc)
    then have "interleaveColumn w (c # cs) xs ! (r * Suc w)
            = (take w xs @ interleaveColumn w cs (drop w xs)) ! (w + r' * Suc w)"
      by (simp only: interleaveColumn.simps nth_Cons_Suc)
    also have "\<dots> = interleaveColumn w cs (drop w xs) ! (r' * Suc w)"
      using lt by (metis nth_append_length_plus)
    also have "\<dots> = cs ! r'"
      using Cons.IH [OF r' fit] .
    finally show ?thesis by (simp add: Suc)
  qed
qed

lemma interleaveColumn_nth_old:
  "r < length cs \<Longrightarrow> j < w \<Longrightarrow> r * w + j < length xs \<Longrightarrow>
     interleaveColumn w cs xs ! (r * Suc w + Suc j) = xs ! (r * w + j)"
proof (induction cs arbitrary: r xs)
  case Nil
  then show ?case by simp
next
  case (Cons c cs)
  show ?case
  proof (cases r)
    case 0
    with Cons.prems show ?thesis by (simp add: nth_append)
  next
    case (Suc r')
    with Cons.prems have w: "w \<le> length xs" and r': "r' < length cs"
      and fit: "r' * w + j < length (drop w xs)"
      by simp_all
    from w have lt: "length (take w xs) = w" by simp
    have "r * Suc w + Suc j = Suc (w + (r' * Suc w + Suc j))"
      by (simp add: Suc)
    then have "interleaveColumn w (c # cs) xs ! (r * Suc w + Suc j)
            = (take w xs @ interleaveColumn w cs (drop w xs)) ! (w + (r' * Suc w + Suc j))"
      by (simp only: interleaveColumn.simps nth_Cons_Suc)
    also have "\<dots> = interleaveColumn w cs (drop w xs) ! (r' * Suc w + Suc j)"
      using lt by (metis nth_append_length_plus)
    also have "\<dots> = drop w xs ! (r' * w + j)"
      using Cons.IH [OF r' Cons.prems(2) fit] .
    also have "\<dots> = xs ! (r * w + j)"
      using w by (simp add: Suc add.assoc)
    finally show ?thesis .
  qed
qed

lemma insertColumn_nth:
  assumes len: "length ns = h * w" "length cs = h" and rc: "rc < w" and r: "r < h"
    and c: "c < Suc w"
  shows "fst (fold (insertColumnStep w) cs (ns, rc)) ! (r * Suc w + c)
           = (if c < rc then ns ! (r * w + c)
              else if c = rc then cs ! r
              else ns ! (r * w + (c - 1)))"
proof -
  from r have h1: "(h - 1) * w + w = h * w"
    by (cases h) simp_all
  have "rc + (h - 1) * w \<le> (h - 1) * w + w"
    using rc by simp
  with h1 have fit: "rc + (length cs - 1) * w \<le> length ns"
    by (simp only: len)
  have res: "fst (fold (insertColumnStep w) cs (ns, rc))
               = take rc ns @ interleaveColumn w cs (drop rc ns)"
    using fit by (intro insertColumn_fold disjI2)
  from r have rw: "r * w + w \<le> h * w"
    using mult_le_mono1 [of "Suc r" h w] by simp
  have rcl: "rc \<le> length ns"
    using rc rw by (simp add: len)
  then have lt: "length (take rc ns) = rc" by simp
  have "rc < c \<Longrightarrow> \<exists>j. c = rc + Suc j"
    using less_imp_Suc_add [of rc c] by simp
  moreover have "r = 0 \<or> (\<exists>r'. r = Suc r')"
    by (cases r) simp_all
  ultimately consider (new) "c = rc" | (right) j where "c = rc + Suc j"
    | (left0) "c < rc" "r = 0" | (left) r' where "c < rc" "r = Suc r'"
    using linorder_neqE_nat [of c rc] by blast
  then show ?thesis
  proof cases
    case new
    have "r * w \<le> length (drop rc ns)"
      using rc rw by (simp add: len)
    from interleaveColumn_nth_new [OF _ this, of cs] r
    have a: "interleaveColumn w cs (drop rc ns) ! (r * Suc w) = cs ! r"
      by (simp add: len)
    have idx: "r * Suc w + c = rc + r * Suc w"
      by (simp add: new)
    have "fst (fold (insertColumnStep w) cs (ns, rc)) ! (r * Suc w + c)
        = (take rc ns @ interleaveColumn w cs (drop rc ns)) ! (rc + r * Suc w)"
      by (simp only: res idx)
    also have "\<dots> = interleaveColumn w cs (drop rc ns) ! (r * Suc w)"
      using lt by (metis nth_append_length_plus)
    also note a
    finally have "fst (fold (insertColumnStep w) cs (ns, rc)) ! (r * Suc w + c) = cs ! r" .
    moreover have "(c < rc) = False" "(c = rc) = True"
      using new by simp_all
    ultimately show ?thesis
      by (simp only: if_False if_True)
  next
    case (right j)
    with c have jw: "j < w" by simp
    have "r * w + j < length (drop rc ns)"
      using right c rw by (simp add: len)
    from interleaveColumn_nth_old [OF _ jw this, of cs] r
    have a: "interleaveColumn w cs (drop rc ns) ! (r * Suc w + Suc j) = drop rc ns ! (r * w + j)"
      by (simp add: len)
    have idx: "r * Suc w + c = rc + (r * Suc w + Suc j)"
      by (simp add: right)
    have "fst (fold (insertColumnStep w) cs (ns, rc)) ! (r * Suc w + c)
        = (take rc ns @ interleaveColumn w cs (drop rc ns)) ! (rc + (r * Suc w + Suc j))"
      by (simp only: res idx)
    also have "\<dots> = interleaveColumn w cs (drop rc ns) ! (r * Suc w + Suc j)"
      using lt by (metis nth_append_length_plus)
    also note a
    also have "drop rc ns ! (r * w + j) = ns ! (r * w + (c - 1))"
    proof -
      have "rc + (r * w + j) = r * w + (c - 1)"
        by (simp add: right)
      with rcl show ?thesis by (simp only: nth_drop)
    qed
    finally have "fst (fold (insertColumnStep w) cs (ns, rc)) ! (r * Suc w + c)
        = ns ! (r * w + (c - 1))" .
    moreover have "(c < rc) = False" "(c = rc) = False"
      using right by simp_all
    ultimately show ?thesis
      by (simp only: if_False)
  next
    case left0
    then show ?thesis
      using rcl by (simp add: res nth_append)
  next
    case (left r')
    define j where "j = w + c - rc"
    from left rc have jw: "j < w" and jrc: "rc + j = w + c"
      by (simp_all add: j_def)
    have "r' * w + j < length (drop rc ns)"
      using rw left rc by (simp add: len j_def)
    from interleaveColumn_nth_old [OF _ jw this, of cs] r left
    have a: "interleaveColumn w cs (drop rc ns) ! (r' * Suc w + Suc j) = drop rc ns ! (r' * w + j)"
      by (simp add: len)
    have idx: "r * Suc w + c = rc + (r' * Suc w + Suc j)"
      using jrc by (simp add: left)
    have "fst (fold (insertColumnStep w) cs (ns, rc)) ! (r * Suc w + c)
        = (take rc ns @ interleaveColumn w cs (drop rc ns)) ! (rc + (r' * Suc w + Suc j))"
      by (simp only: res idx)
    also have "\<dots> = interleaveColumn w cs (drop rc ns) ! (r' * Suc w + Suc j)"
      using lt by (metis nth_append_length_plus)
    also note a
    also have "drop rc ns ! (r' * w + j) = ns ! (r * w + c)"
    proof -
      have "rc + (r' * w + j) = r * w + c"
        using jrc by (simp add: left)
      with rcl show ?thesis by (simp only: nth_drop)
    qed
    finally have "fst (fold (insertColumnStep w) cs (ns, rc)) ! (r * Suc w + c)
        = ns ! (r * w + c)" .
    moreover have "(c < rc) = True"
      using left by simp
    ultimately show ?thesis
      by (simp only: if_True)
  qed
qed

lemma insertColumn_length:
  assumes "length ns = h * w" "length cs = h" "rc < w"
  shows "length (fst (fold (insertColumnStep w) cs (ns, rc))) = h * Suc w"
proof -
  have "cs = [] \<or> rc + (length cs - 1) * w \<le> length ns"
  proof (cases h)
    case 0
    with assms show ?thesis by simp
  next
    case (Suc h')
    with assms show ?thesis by simp
  qed
  from insertColumn_fold [OF this] assms show ?thesis
    by (simp add: interleaveColumn_length)
qed

lemma splitColumn_loop:
  assumes "Suc lc < w" and "h * w \<le> length nodes"
    and "st = fold (splitColumnStep w lc (Suc lc) relT) [0..<h] (nodes, replicate h emptyNode)"
  shows "length (fst st) = length nodes \<and> length (snd st) = h \<and>
     (\<forall>j<h. fst st ! (j * w + lc)
               = fst (splitCurveHorizontally (nodes ! (j * w + lc)) (nodes ! (j * w + Suc lc))
                       relT emptyNode) \<and>
             fst st ! (j * w + Suc lc)
               = fst (snd (splitCurveHorizontally (nodes ! (j * w + lc)) (nodes ! (j * w + Suc lc))
                       relT emptyNode)) \<and>
             snd st ! j
               = snd (snd (splitCurveHorizontally (nodes ! (j * w + lc)) (nodes ! (j * w + Suc lc))
                       relT emptyNode))) \<and>
     (\<forall>i<length nodes. (\<forall>j<h. i \<noteq> j * w + lc \<and> i \<noteq> j * w + Suc lc) \<longrightarrow>
         fst st ! i = nodes ! i)"
proof -
  from assms(1) have lcw: "lc < w" by simp
  have "length (fst st) = length nodes \<and> length (snd st) = h \<and>
     (\<forall>j<h. fst st ! (j * w + lc)
               = fst (splitCurveHorizontally (nodes ! (j * w + lc)) (nodes ! (j * w + Suc lc))
                       relT emptyNode) \<and>
             fst st ! (j * w + Suc lc)
               = fst (snd (splitCurveHorizontally (nodes ! (j * w + lc)) (nodes ! (j * w + Suc lc))
                       relT emptyNode)) \<and>
             snd st ! j
               = snd (snd (splitCurveHorizontally (nodes ! (j * w + lc)) (nodes ! (j * w + Suc lc))
                       relT emptyNode))) \<and>
     (\<forall>j. h \<le> j \<longrightarrow> j < h \<longrightarrow>
             fst st ! (j * w + lc) = nodes ! (j * w + lc) \<and>
             fst st ! (j * w + Suc lc) = nodes ! (j * w + Suc lc) \<and> snd st ! j = emptyNode) \<and>
     (\<forall>i<length nodes. (\<forall>j<h. i \<noteq> j * w + lc \<and> i \<noteq> j * w + Suc lc) \<longrightarrow>
         fst st ! i = nodes ! i)"
  proof (rule pair_loop [where F = "\<lambda>a b n. splitCurveHorizontally a b relT n"
        and ia = "\<lambda>j. j * w + lc" and ib = "\<lambda>j. j * w + Suc lc" and n = h and k = h
        and step = "splitColumnStep w lc (Suc lc) relT"])
    show "i * w + lc \<noteq> j * w + Suc lc" if "i < h" "j < h" for i j
      using grid_index_unique [OF lcw assms(1), of i j] by auto
    show "i = j" if "i * w + lc = j * w + lc" for i j
      using grid_index_unique [OF lcw lcw that] by simp
    show "i = j" if "i * w + Suc lc = j * w + Suc lc" for i j
      using grid_index_unique [OF assms(1) assms(1) that] by simp
    show "j * w + lc < length nodes \<and> j * w + Suc lc < length nodes" if "j < h" for j
      using grid_index_less [OF assms(1) that] assms(2) by (simp add: mult.commute)
    show "splitColumnStep w lc (Suc lc) relT j s =
        (let r = splitCurveHorizontally (fst s ! (j * w + lc)) (fst s ! (j * w + Suc lc)) relT
                   (snd s ! j)
         in (((fst s)[j * w + lc := fst r])[j * w + Suc lc := fst (snd r)],
             (snd s)[j := snd (snd r)]))" for j s
      by (simp add: splitColumnStep_def Let_def)
  qed (simp_all add: assms(3))
  then show ?thesis by blast
qed

lemma subdivideColumn_noop:
  assumes "qFuzzyCompare t 0 \<or> qFuzzyCompare t 1 \<or> \<not> (0 < t \<and> t < 1)"
  shows "subdivideColumn t m = Some m"
  using assms by (auto simp add: subdivideColumn_def)

lemma upper_bound_columns_Suc:
  assumes inv: "meshInvariant m" and t: "0 < t" "t < 1"
  obtains lc where "upper_bound (m_columns m) t = Suc lc"
proof -
  from inv have "m_columns m \<noteq> []" "m_columns m ! 0 \<le> t" "t < last (m_columns m)"
    using t meshInvariant_sizes(6) [OF inv] by (simp_all add: meshInvariant_def)
  from upper_bound_range(1) [OF this] obtain lc where "upper_bound (m_columns m) t = Suc lc"
    using gr0_implies_Suc by blast
  then show ?thesis by (rule that)
qed

lemma subdivideColumn_unfold:
  assumes inv: "meshInvariant m" and t: "0 < t" "t < 1" "\<not> qFuzzyCompare t 1"
    and ub: "upper_bound (m_columns m) t = Suc lc"
    and st: "st = fold (splitColumnStep (meshWidth m) lc (Suc lc)
                    ((t - m_columns m ! lc) / (m_columns m ! Suc lc - m_columns m ! lc)))
                  [0..<meshHeight m] (m_nodes m, replicate (meshHeight m) emptyNode)"
  shows "Suc lc < meshWidth m"
    and "subdivideColumn t m =
      Some (m\<lparr> m_nodes := fst (fold (insertColumnStep (meshWidth m)) (snd st) (fst st, Suc lc)),
               m_size := (m_size m)\<lparr> sizeWidth := sizeWidth (m_size m) + 1 \<rparr>,
               m_columns := take (Suc lc) (m_columns m) @ [t] @ drop (Suc lc) (m_columns m) \<rparr>)"
proof -
  from inv have cols: "m_columns m \<noteq> []" "m_columns m ! 0 \<le> t" "t < last (m_columns m)"
    and len: "length (m_columns m) = meshWidth m"
      "length (m_nodes m) = meshWidth m * meshHeight m"
    and sz: "\<not> sizeWidth (m_size m) < 0" "\<not> sizeHeight (m_size m) < 0"
    using t meshInvariant_sizes(6) [OF inv] by (simp_all add: meshInvariant_def)
  from upper_bound_range(2) [OF cols] show w: "Suc lc < meshWidth m"
    by (simp add: ub len)
  from t have z: "\<not> qFuzzyCompare t 0"
    by (simp add: qFuzzyCompare_zero)
  have n': "\<not> (0 < meshHeight m \<and>
      length (m_nodes m) \<le> (meshHeight m - 1) * meshWidth m + Suc lc)"
  proof (cases "meshHeight m")
    case 0
    then show ?thesis by simp
  next
    case (Suc h')
    with w show ?thesis by (simp add: len)
  qed
  show "subdivideColumn t m =
      Some (m\<lparr> m_nodes := fst (fold (insertColumnStep (meshWidth m)) (snd st) (fst st, Suc lc)),
               m_size := (m_size m)\<lparr> sizeWidth := sizeWidth (m_size m) + 1 \<rparr>,
               m_columns := take (Suc lc) (m_columns m) @ [t] @ drop (Suc lc) (m_columns m) \<rparr>)"
    using t z sz w n' by (simp add: subdivideColumn_def ub len Let_def st)
qed

lemma subdivideColumn_nodes:
  assumes inv: "meshInvariant m" and t: "0 < t" "t < 1" "\<not> qFuzzyCompare t 1"
    and ub: "upper_bound (m_columns m) t = Suc lc"
    and res: "subdivideColumn t m = Some m'"
    and row: "row < meshHeight m"
    and S: "S = splitCurveHorizontally (mesh_node m lc row) (mesh_node m (Suc lc) row)
                  ((t - m_columns m ! lc) / (m_columns m ! Suc lc - m_columns m ! lc)) emptyNode"
  shows "col < lc \<Longrightarrow> mesh_node m' col row = mesh_node m col row"
    and "mesh_node m' lc row = fst S"
    and "mesh_node m' (Suc lc) row = snd (snd S)"
    and "mesh_node m' (Suc (Suc lc)) row = fst (snd S)"
    and "Suc lc < col \<Longrightarrow> col < meshWidth m \<Longrightarrow> mesh_node m' (Suc col) row = mesh_node m col row"
proof -
  define w where "w = meshWidth m"
  define h where "h = meshHeight m"
  define relT where "relT = (t - m_columns m ! lc) / (m_columns m ! Suc lc - m_columns m ! lc)"
  define st where "st = fold (splitColumnStep w lc (Suc lc) relT) [0..<h]
                          (m_nodes m, replicate h emptyNode)"
  note u = subdivideColumn_unfold [OF inv t ub st_def [unfolded w_def h_def relT_def]]
  from u(1) have lcw: "Suc lc < w" by (simp add: w_def)
  from inv have nodes: "length (m_nodes m) = h * w"
    by (simp add: meshInvariant_def w_def h_def mult.commute)
  then have bound: "h * w \<le> length (m_nodes m)" by simp
  note L = splitColumn_loop [OF lcw bound st_def]
  from L nodes have len: "length (fst st) = h * w" "length (snd st) = h"
    by simp_all
  from u(2) res have m': "m_nodes m' = fst (fold (insertColumnStep w) (snd st) (fst st, Suc lc))"
    and "m_size m' = (m_size m)\<lparr> sizeWidth := sizeWidth (m_size m) + 1 \<rparr>"
    by (auto simp add: w_def)
  then have w': "meshWidth m' = Suc w"
    using inv by (simp add: meshWidth_def w_def meshInvariant_def nat_add_distrib)
  from row have rowh: "row < h" by (simp add: h_def)
  have nth: "mesh_node m' c row =
      (if c < Suc lc then fst st ! (row * w + c)
       else if c = Suc lc then snd st ! row
       else fst st ! (row * w + (c - 1)))" if "c < Suc w" for c
    unfolding mesh_node_def w' m' by (rule insertColumn_nth [OF len lcw rowh that])
  have Sj: "S = splitCurveHorizontally (m_nodes m ! (row * w + lc))
                  (m_nodes m ! (row * w + Suc lc)) relT emptyNode"
    by (simp add: S mesh_node_def w_def relT_def)
  have Lc: "fst st ! (row * w + lc) = fst S" "fst st ! (row * w + Suc lc) = fst (snd S)"
      "snd st ! row = snd (snd S)"
    using L rowh unfolding Sj by blast+
  have other: "fst st ! (row * w + c) = mesh_node m c row"
    if "c \<noteq> lc" "c \<noteq> Suc lc" "c < w" for c
  proof -
    have "row * w + c < length (m_nodes m)"
      using grid_index_less [OF that(3) rowh] by (simp add: nodes mult.commute)
    moreover have "\<forall>j<h. row * w + c \<noteq> j * w + lc \<and> row * w + c \<noteq> j * w + Suc lc"
      using grid_index_unique [OF that(3), of lc row] grid_index_unique [OF that(3) lcw, of row]
        that(1,2) lcw by auto
    ultimately show ?thesis
      using L by (simp add: mesh_node_def w_def)
  qed
  show "mesh_node m' col row = mesh_node m col row" if "col < lc"
  proof -
    from that lcw have "col < Suc w" "col < Suc lc" "col \<noteq> lc" "col \<noteq> Suc lc" "col < w"
      by simp_all
    then show ?thesis
      using other [of col] by (simp add: nth)
  qed
  show "mesh_node m' lc row = fst S"
    using lcw by (simp add: nth Lc)
  show "mesh_node m' (Suc lc) row = snd (snd S)"
    using lcw by (simp add: nth Lc)
  show "mesh_node m' (Suc (Suc lc)) row = fst (snd S)"
  proof -
    have c: "Suc (Suc lc) < Suc w"
      using lcw by simp
    have "(Suc (Suc lc) < Suc lc) = False" "(Suc (Suc lc) = Suc lc) = False"
      "Suc (Suc lc) - 1 = Suc lc"
      by simp_all
    then show ?thesis
      by (simp only: nth [OF c] if_False Lc)
  qed
  show "mesh_node m' (Suc col) row = mesh_node m col row"
    if "Suc lc < col" "col < meshWidth m"
  proof -
    from that have "Suc col < Suc w" "\<not> Suc col < Suc lc" "Suc col \<noteq> Suc lc" "col \<noteq> lc"
      "col \<noteq> Suc lc" "col < w"
      by (simp_all add: w_def)
    then show ?thesis
      using other [of col] by (simp add: nth)
  qed
qed

lemma subdivideColumn_grows:
  assumes inv: "meshInvariant m" and t: "0 < t" "t < 1" "\<not> qFuzzyCompare t 1"
  obtains m' where "subdivideColumn t m = Some m'"
    and "m_size m' = (m_size m)\<lparr> sizeWidth := sizeWidth (m_size m) + 1 \<rparr>"
    and "m_columns m' = take (upper_bound (m_columns m) t) (m_columns m) @ [t]
                       @ drop (upper_bound (m_columns m) t) (m_columns m)"
    and "m_rows m' = m_rows m" and "m_originalRect m' = m_originalRect m"
    and "length (m_nodes m') = length (m_nodes m) + meshHeight m"
    and "meshInvariant m'"
proof -
  from upper_bound_columns_Suc [OF inv t(1,2)] obtain lc
    where ub: "upper_bound (m_columns m) t = Suc lc" .
  define st where "st = fold (splitColumnStep (meshWidth m) lc (Suc lc)
                    ((t - m_columns m ! lc) / (m_columns m ! Suc lc - m_columns m ! lc)))
                  [0..<meshHeight m] (m_nodes m, replicate (meshHeight m) emptyNode)"
  define m' where "m' = m\<lparr> m_nodes := fst (fold (insertColumnStep (meshWidth m)) (snd st)
                                            (fst st, Suc lc)),
               m_size := (m_size m)\<lparr> sizeWidth := sizeWidth (m_size m) + 1 \<rparr>,
               m_columns := take (Suc lc) (m_columns m) @ [t] @ drop (Suc lc) (m_columns m) \<rparr>"
  note u = subdivideColumn_unfold [OF inv t ub st_def]
  from inv have nodes: "length (m_nodes m) = meshHeight m * meshWidth m"
    by (simp add: meshInvariant_def mult.commute)
  then have bound: "meshHeight m * meshWidth m \<le> length (m_nodes m)" by simp
  from splitColumn_loop [OF u(1) bound st_def] nodes
  have len: "length (fst st) = meshHeight m * meshWidth m" "length (snd st) = meshHeight m"
    by simp_all
  have res: "subdivideColumn t m = Some m'"
    using u(2) by (simp add: m'_def)
  have nodes': "length (m_nodes m') = meshHeight m * Suc (meshWidth m)"
    using insertColumn_length [OF len u(1)] by (simp add: m'_def)
  have h': "meshHeight m' = meshHeight m"
    by (simp add: m'_def meshHeight_def)
  have w': "meshWidth m' = Suc (meshWidth m)"
    using inv by (simp add: m'_def meshWidth_def meshInvariant_def nat_add_distrib)
  from u(1) inv have h: "Suc lc < length (m_columns m)"
    by (simp add: meshInvariant_def)
  have first: "m_columns m' ! 0 = 0"
    using inv h by (simp add: m'_def nth_append meshInvariant_def)
  have "drop (Suc lc) (m_columns m) \<noteq> []"
    using h by simp
  then have lst: "last (m_columns m') = 1"
    using inv h by (simp add: m'_def meshInvariant_def)
  have srt: "sorted (m_columns m')"
    using sorted_insert_upper_bound [of "m_columns m" t] inv
    by (simp add: m'_def ub meshInvariant_def)
  have "meshInvariant m'"
    unfolding meshInvariant_def
    using inv first lst srt nodes' h' w' h
    by (simp add: meshInvariant_def) (simp add: m'_def)
  moreover have "length (m_nodes m') = length (m_nodes m) + meshHeight m"
    using nodes' nodes by simp
  ultimately show ?thesis
    using res by (intro that [of m']) (simp_all add: m'_def ub)
qed

lemma subdivideColumn_invariant:
  assumes "meshInvariant m" and "subdivideColumn t m = Some m'"
  shows "meshInvariant m'"
proof (cases "qFuzzyCompare t 0 \<or> qFuzzyCompare t 1 \<or> \<not> (0 < t \<and> t < 1)")
  case True
  with assms show ?thesis
    by (simp add: subdivideColumn_noop)
next
  case False
  then have "0 < t" "t < 1" "\<not> qFuzzyCompare t 1" by simp_all
  from subdivideColumn_grows [OF assms(1) this] assms(2) show ?thesis
    by (metis option.inject)
qed

subsection \<open>The constructor\<close>

lemma gridLoop_set: "n \<in> set (gridLoop w h f) \<Longrightarrow> \<exists>x<w. \<exists>y<h. n = f x y"
  by (fastforce simp add: gridLoop_def)

lemma positions_sorted:
  assumes "0 < d"
  shows "sorted (map (\<lambda>i. real i / d) [0..<n])"
  using assms by (auto simp add: sorted_iff_nth_mono divide_right_mono)

lemma positions_last:
  assumes "2 \<le> W"
  shows "last (map (\<lambda>i. real i / real_of_int (W - 1)) [0..<nat W]) = 1"
proof -
  from assms have "[0..<nat W] \<noteq> []" by simp
  then have "last (map (\<lambda>i. real i / real_of_int (W - 1)) [0..<nat W])
      = real (nat W - 1) / real_of_int (W - 1)"
    by (simp add: last_map)
  also from assms have "real (nat W - 1) = real_of_int (W - 1)"
    by (simp add: of_nat_diff)
  finally show ?thesis using assms by simp
qed

lemma newBezierMesh_invariant:
  assumes "2 \<le> sizeWidth sz" and "2 \<le> sizeHeight sz"
  shows "meshInvariant (newBezierMesh mapRect sz)"
  unfolding meshInvariant_def
  using assms positions_last [OF assms(1)] positions_last [OF assms(2)]
    positions_sorted [of "real_of_int (sizeWidth sz - 1)" "nat (sizeWidth sz)"]
    positions_sorted [of "real_of_int (sizeHeight sz - 1)" "nat (sizeHeight sz)"]
  by (simp add: newBezierMesh_def meshWidth_def meshHeight_def gridLoop_length)

lemma newBezierMesh_node:
  assumes "col < nat (sizeWidth sz)" and "row < nat (sizeHeight sz)"
  shows "mesh_node (newBezierMesh mapRect sz) col row
           = mkNode (QPointF (real col / real_of_int (sizeWidth sz - 1) * rectWidth mapRect
                                + rectX mapRect)
                             (real row / real_of_int (sizeHeight sz - 1) * rectHeight mapRect
                                + rectY mapRect))"
  using assms by (simp add: mesh_node_def meshWidth_def newBezierMesh_def gridLoop_nth Let_def)

lemma newBezierMesh_flat:
  assumes "n \<in> set (m_nodes (newBezierMesh mapRect sz))"
  shows "leftControl n = node n \<and> topControl n = node n \<and> rightControl n = node n
         \<and> bottomControl n = node n"
proof -
  from assms obtain x y where "n = (let yPos = real y / real_of_int (sizeHeight sz - 1)
                                        * rectHeight mapRect + rectY mapRect;
                    xPos = real x / real_of_int (sizeWidth sz - 1) * rectWidth mapRect
                             + rectX mapRect
                in mkNode (QPointF xPos yPos))"
    unfolding newBezierMesh_def using gridLoop_set by fastforce
  then show ?thesis
    by (simp add: mkNode_def Let_def)
qed

lemma reachable_invariant: "reachable m \<Longrightarrow> meshInvariant m"
proof (induction rule: reachable.induct)
  case (constructed sz mapRect)
  then show ?case by (rule newBezierMesh_invariant)
next
  case (subdividedRow m t m')
  then show ?case by (simp add: subdivideRow_invariant)
next
  case (subdividedColumn m t m')
  then show ?case by (simp add: subdivideColumn_invariant)
qed

lemma exampleMesh_invariant: "meshInvariant exampleMesh"
  unfolding exampleMesh_def by (rule newBezierMesh_invariant) (simp_all add: defaultSize_def)

lemma exampleMesh_reachable: "reachable exampleMesh"
  unfolding exampleMesh_def by (rule reachable.constructed) (simp_all add: defaultSize_def)

subsection \<open>The example mesh\<close>

lemma exampleMesh_rows: "m_rows exampleMesh = [0, 1]" "m_columns exampleMesh = [0, 1]"
  by (simp_all add: exampleMesh_def newBezierMesh_def defaultSize_def eval_nat_numeral upt_rec)

lemma exampleMesh_subdivideRow_half:
  "subdivideRow (1 / 2) exampleMesh = Some
   \<lparr>m_nodes =
     [\<lparr>leftControl = QPointF 0 0, topControl = QPointF 0 0,
         node = QPointF 0 0, rightControl = QPointF 0 0,
         bottomControl = QPointF 0 0\<rparr>,
      \<lparr>leftControl = QPointF 100 0, topControl = QPointF 100 0,
         node = QPointF 100 0, rightControl = QPointF 100 0,
         bottomControl = QPointF 100 0\<rparr>,
      \<lparr>leftControl = QPointF 0 50, topControl = QPointF 0 25,
         node = QPointF 0 50, rightControl = QPointF 0 50,
         bottomControl = QPointF 0 75\<rparr>,
      \<lparr>leftControl = QPointF 100 50, topControl = QPointF 100 25,
         node = QPointF 100 50, rightControl = QPointF 100 50,
         bottomControl = QPointF 100 75\<rparr>,
      \<lparr>leftControl = QPointF 0 100, topControl = QPointF 0 100,
         node = QPointF 0 100, rightControl = QPointF 0 100,
         bottomControl = QPointF 0 100\<rparr>,
      \<lparr>leftControl = QPointF 100 100, topControl = QPointF 100 100,
         node = QPointF 100 100, rightControl = QPointF 100 100,
         bottomControl = QPointF 100 100\<rparr>],
     m_rows = [0, 1 / 2, 1], m_columns = [0, 1],
     m_size = \<lparr>sizeWidth = 2, sizeHeight = 3\<rparr>,
     m_originalRect =
       \<lparr>rectX = 0, rectY = 0, rectWidth = 100, rectHeight = 100\<rparr>\<rparr>"
  by code_simp

lemma exampleMesh_subdivideRow_half_twice:
  "Option.bind (subdivideRow (1 / 2) exampleMesh) (subdivideRow (1 / 2)) = Some
   \<lparr>m_nodes =
     [\<lparr>leftControl = QPointF 0 0, topControl = QPointF 0 0,
         node = QPointF 0 0, rightControl = QPointF 0 0,
         bottomControl = QPointF 0 0\<rparr>,
      \<lparr>leftControl = QPointF 100 0, topControl = QPointF 100 0,
         node = QPointF 100 0, rightControl = QPointF 100 0,
         bottomControl = QPointF 100 0\<rparr>,
      \<lparr>leftControl = QPointF 0 50, topControl = QPointF 0 25,
         node = QPointF 0 50, rightControl = QPointF 0 50,
         bottomControl = QPointF 0 50\<rparr>,
      \<lparr>leftControl = QPointF 100 50, topControl = QPointF 100 25,
         node = QPointF 100 50, rightControl = QPointF 100 50,
         bottomControl = QPointF 100 50\<rparr>,
      \<lparr>leftControl = QPointF 0 50, topControl = QPointF 0 50,
         node = QPointF 0 50, rightControl = QPointF 0 50,
         bottomControl = QPointF 0 75\<rparr>,
      \<lparr>leftControl = QPointF 100 50, topControl = QPointF 100 50,
         node = QPointF 100 50, rightControl = QPointF 100 50,
         bottomControl = QPointF 100 75\<rparr>,
      \<lparr>leftControl = QPointF 0 100, topControl = QPointF 0 100,
         node = QPointF 0 100, rightControl = QPointF 0 100,
         bottomControl = QPointF 0 100\<rparr>,
      \<lparr>leftControl = QPointF 100 100, topControl = QPointF 100 100,
         node = QPointF 100 100, rightControl = QPointF 100 100,
         bottomControl = QPointF 100 100\<rparr>],
     m_rows = [0, 1 / 2, 1 / 2, 1], m_columns = [0, 1],
     m_size = \<lparr>sizeWidth = 2, sizeHeight = 4\<rparr>,
     m_originalRect =
       \<lparr>rectX = 0, rectY = 0, rectWidth = 100, rectHeight = 100\<rparr>\<rparr>"
  by code_simp

lemma bind_reachable:
  assumes "reachable m" and "Option.bind (subdivideRow t m) (subdivideRow u) = Some m''"
  shows "reachable m''"
proof -
  from assms(2) obtain m' where "subdivideRow t m = Some m'" "subdivideRow u m' = Some m''"
    by (cases "subdivideRow t m") simp_all
  with assms(1) show ?thesis
    by (blast intro: reachable.subdividedRow)
qed

subsection \<open>No-op or growth\<close>

lemma subdivideRow_cases:
  assumes "meshInvariant m"
  obtains (noop) "qFuzzyCompare t 0 \<or> qFuzzyCompare t 1 \<or> \<not> (0 < t \<and> t < 1)"
      "subdivideRow t m = Some m"
  | (grows) m' where "\<not> (qFuzzyCompare t 0 \<or> qFuzzyCompare t 1 \<or> \<not> (0 < t \<and> t < 1))"
      "subdivideRow t m = Some m'" "meshInvariant m'"
      "sizeHeight (m_size m') = sizeHeight (m_size m) + 1"
      "sizeWidth (m_size m') = sizeWidth (m_size m)"
      "length (m_rows m') = length (m_rows m) + 1" "t \<in> set (m_rows m')"
      "m_columns m' = m_columns m"
      "length (m_nodes m') = length (m_nodes m) + meshWidth m"
proof (cases "qFuzzyCompare t 0 \<or> qFuzzyCompare t 1 \<or> \<not> (0 < t \<and> t < 1)")
  case True
  then show ?thesis
    using subdivideRow_noop [OF True] by (rule noop)
next
  case False
  then have t: "0 < t" "t < 1" "\<not> qFuzzyCompare t 1" by simp_all
  from subdivideRow_grows [OF assms t] obtain m' where m': "subdivideRow t m = Some m'"
    "m_size m' = (m_size m)\<lparr> sizeHeight := sizeHeight (m_size m) + 1 \<rparr>"
    "m_rows m' = take (upper_bound (m_rows m) t) (m_rows m) @ [t]
                       @ drop (upper_bound (m_rows m) t) (m_rows m)"
    "m_columns m' = m_columns m"
    "length (m_nodes m') = length (m_nodes m) + meshWidth m"
    "meshInvariant m'"
    by metis
  have "length (m_rows m') = length (m_rows m) + 1"
    unfolding m'(3) by (simp add: upper_bound_def length_takeWhile_le)
  moreover have "t \<in> set (m_rows m')"
    unfolding m'(3) by simp
  ultimately show ?thesis
    using False m' by (intro grows [of m']) simp_all
qed

lemma subdivideColumn_cases:
  assumes "meshInvariant m"
  obtains (noop) "qFuzzyCompare t 0 \<or> qFuzzyCompare t 1 \<or> \<not> (0 < t \<and> t < 1)"
      "subdivideColumn t m = Some m"
  | (grows) m' where "\<not> (qFuzzyCompare t 0 \<or> qFuzzyCompare t 1 \<or> \<not> (0 < t \<and> t < 1))"
      "subdivideColumn t m = Some m'" "meshInvariant m'"
      "sizeWidth (m_size m') = sizeWidth (m_size m) + 1"
      "sizeHeight (m_size m') = sizeHeight (m_size m)"
      "length (m_columns m') = length (m_columns m) + 1" "t \<in> set (m_columns m')"
      "m_rows m' = m_rows m"
      "length (m_nodes m') = length (m_nodes m) + meshHeight m"
proof (cases "qFuzzyCompare t 0 \<or> qFuzzyCompare t 1 \<or> \<not> (0 < t \<and> t < 1)")
  case True
  then show ?thesis
    using subdivideColumn_noop [OF True] by (rule noop)
next
  case False
  then have t: "0 < t" "t < 1" "\<not> qFuzzyCompare t 1" by simp_all
  from subdivideColumn_grows [OF assms t] obtain m' where m': "subdivideColumn t m = Some m'"
    "m_size m' = (m_size m)\<lparr> sizeWidth := sizeWidth (m_size m) + 1 \<rparr>"
    "m_columns m' = take (upper_bound (m_columns m) t) (m_columns m) @ [t]
                       @ drop (upper_bound (m_columns m) t) (m_columns m)"
    "m_rows m' = m_rows m"
    "length (m_nodes m') = length (m_nodes m) + meshHeight m"
    "meshInvariant m'"
    by metis
  have "length (m_columns m') = length (m_columns m) + 1"
    unfolding m'(3) by (simp add: upper_bound_def length_takeWhile_le)
  moreover have "t \<in> set (m_columns m')"
    unfolding m'(3) by simp
  ultimately show ?thesis
    using False m' by (intro grows [of m']) simp_all
qed

lemma subdivideRow_twice:
  assumes "meshInvariant m"
  shows "case subdivideRow t m of None \<Rightarrow> False | Some m' \<Rightarrow>
           (if qFuzzyCompare t 0 \<or> qFuzzyCompare t 1 \<or> \<not> (0 < t \<and> t < 1) then m' = m
            else sizeHeight (m_size m') = sizeHeight (m_size m) + 1
               \<and> length (m_rows m') = length (m_rows m) + 1 \<and> t \<in> set (m_rows m')
               \<and> length (m_nodes m') = length (m_nodes m) + meshWidth m) \<and>
           (case subdivideRow t m' of None \<Rightarrow> False | Some m'' \<Rightarrow>
              if qFuzzyCompare t 0 \<or> qFuzzyCompare t 1 \<or> \<not> (0 < t \<and> t < 1) then m'' = m
              else sizeHeight (m_size m'') = sizeHeight (m_size m) + 2
                 \<and> length (m_rows m'') = length (m_rows m) + 2
                 \<and> length (m_nodes m'') = length (m_nodes m) + 2 * meshWidth m)"
  using assms
proof (cases rule: subdivideRow_cases [where t = t])
  case noop
  then show ?thesis by simp
next
  case (grows m')
  from grows(5) have w: "meshWidth m' = meshWidth m"
    by (simp add: meshWidth_def)
  show ?thesis
    using grows(3)
  proof (cases rule: subdivideRow_cases [where t = t])
    case noop
    with grows(1) show ?thesis by simp
  next
    case second: (grows m'')
    with grows w show ?thesis by simp
  qed
qed

lemma subdivideColumn_twice:
  assumes "meshInvariant m"
  shows "case subdivideColumn t m of None \<Rightarrow> False | Some m' \<Rightarrow>
           (if qFuzzyCompare t 0 \<or> qFuzzyCompare t 1 \<or> \<not> (0 < t \<and> t < 1) then m' = m
            else sizeWidth (m_size m') = sizeWidth (m_size m) + 1
               \<and> length (m_columns m') = length (m_columns m) + 1 \<and> t \<in> set (m_columns m')
               \<and> length (m_nodes m') = length (m_nodes m) + meshHeight m) \<and>
           (case subdivideColumn t m' of None \<Rightarrow> False | Some m'' \<Rightarrow>
              if qFuzzyCompare t 0 \<or> qFuzzyCompare t 1 \<or> \<not> (0 < t \<and> t < 1) then m'' = m
              else sizeWidth (m_size m'') = sizeWidth (m_size m) + 2
                 \<and> length (m_columns m'') = length (m_columns m) + 2
                 \<and> length (m_nodes m'') = length (m_nodes m) + 2 * meshHeight m)"
  using assms
proof (cases rule: subdivideColumn_cases [where t = t])
  case noop
  then show ?thesis by simp
next
  case (grows m')
  from grows(5) have h: "meshHeight m' = meshHeight m"
    by (simp add: meshHeight_def)
  show ?thesis
    using grows(3)
  proof (cases rule: subdivideColumn_cases [where t = t])
    case noop
    with grows(1) show ?thesis by simp
  next
    case second: (grows m'')
    with grows h show ?thesis by simp
  qed
qed

subsection \<open>A subdivision strictly between two adjacent positions\<close>

lemma between_positions:
  assumes "xs ! 0 = 0" and "last xs = 1" and "sorted xs"
    and "Suc i < length xs" and "xs ! i < t" and "t < xs ! Suc i"
  shows "0 < t" and "t < 1" and "upper_bound xs t = Suc i"
proof -
  from assms(3,4) have "xs ! 0 \<le> xs ! i"
    by (simp add: sorted_nth_mono)
  with assms(1,5) show "0 < t" by simp
  from assms(4) have "last xs = xs ! (length xs - 1)"
    by (intro last_conv_nth) auto
  moreover from assms(3,4) have "xs ! Suc i \<le> xs ! (length xs - 1)"
    by (intro sorted_nth_mono) simp_all
  ultimately show "t < 1"
    using assms(2,6) by simp
  from assms(5) have "xs ! i \<le> t" by simp
  from upper_bound_between [OF assms(3,4) this assms(6)]
  show "upper_bound xs t = Suc i" .
qed

lemma splitCurveVertically_results:
  "fst (splitCurveVertically tp bt t n)
     = tp\<lparr> bottomControl := bottomControl (fst (splitCurveVertically tp bt t n)) \<rparr>"
  "fst (snd (splitCurveVertically tp bt t n))
     = bt\<lparr> topControl := topControl (fst (snd (splitCurveVertically tp bt t n))) \<rparr>"
  "node (snd (snd (splitCurveVertically tp bt t n)))
     = bezierCurve (node tp) (bottomControl tp) (topControl bt) (node bt) t"
  using deCasteljau_split_point [of "node tp" "bottomControl tp" "topControl bt" "node bt" t]
  by (auto simp add: splitCurveVertically_def Let_def split: prod.splits)

lemma splitCurveHorizontally_results:
  "fst (splitCurveHorizontally l r t n)
     = l\<lparr> rightControl := rightControl (fst (splitCurveHorizontally l r t n)) \<rparr>"
  "fst (snd (splitCurveHorizontally l r t n))
     = r\<lparr> leftControl := leftControl (fst (snd (splitCurveHorizontally l r t n))) \<rparr>"
  "node (snd (snd (splitCurveHorizontally l r t n)))
     = bezierCurve (node l) (rightControl l) (leftControl r) (node r) t"
  using deCasteljau_split_point [of "node l" "rightControl l" "leftControl r" "node r" t]
  by (auto simp add: splitCurveHorizontally_def Let_def split: prod.splits)

lemma subdivideRow_between:
  assumes inv: "meshInvariant m" and i: "Suc i < meshHeight m" and col: "col < meshWidth m"
    and t: "m_rows m ! i < t" "t < m_rows m ! Suc i" and nf: "\<not> qFuzzyCompare t 1"
  obtains m' where "subdivideRow t m = Some m'"
    and "\<forall>row<i. mesh_node m' col row = mesh_node m col row"
    and "mesh_node m' col i
           = (mesh_node m col i)\<lparr> bottomControl := bottomControl (mesh_node m' col i) \<rparr>"
    and "node (mesh_node m' col (Suc i))
           = bezierCurve (node (mesh_node m col i)) (bottomControl (mesh_node m col i))
               (topControl (mesh_node m col (Suc i))) (node (mesh_node m col (Suc i)))
               ((t - m_rows m ! i) / (m_rows m ! Suc i - m_rows m ! i))"
    and "mesh_node m' col (Suc (Suc i))
           = (mesh_node m col (Suc i))\<lparr> topControl := topControl (mesh_node m' col (Suc (Suc i))) \<rparr>"
    and "\<forall>row. Suc i < row \<longrightarrow> row < meshHeight m \<longrightarrow>
           mesh_node m' col (Suc row) = mesh_node m col row"
proof -
  from inv i have pre: "m_rows m ! 0 = 0" "last (m_rows m) = 1" "sorted (m_rows m)"
    "Suc i < length (m_rows m)"
    by (simp_all add: meshInvariant_def)
  note b = between_positions [OF pre t]
  from subdivideRow_grows [OF inv b(1,2) nf] obtain m' where res: "subdivideRow t m = Some m'"
    by metis
  define S where "S = splitCurveVertically (mesh_node m col i) (mesh_node m col (Suc i))
                  ((t - m_rows m ! i) / (m_rows m ! Suc i - m_rows m ! i)) emptyNode"
  note n = subdivideRow_nodes [OF inv b(1,2) nf b(3) res col S_def]
  show ?thesis
  proof (rule that [OF res])
    show "\<forall>row<i. mesh_node m' col row = mesh_node m col row"
      using n(1) by simp
    show "mesh_node m' col i
           = (mesh_node m col i)\<lparr> bottomControl := bottomControl (mesh_node m' col i) \<rparr>"
      unfolding n(2) S_def by (rule splitCurveVertically_results(1))
    show "node (mesh_node m' col (Suc i))
           = bezierCurve (node (mesh_node m col i)) (bottomControl (mesh_node m col i))
               (topControl (mesh_node m col (Suc i))) (node (mesh_node m col (Suc i)))
               ((t - m_rows m ! i) / (m_rows m ! Suc i - m_rows m ! i))"
      unfolding n(3) S_def by (rule splitCurveVertically_results(3))
    show "mesh_node m' col (Suc (Suc i))
           = (mesh_node m col (Suc i))\<lparr> topControl := topControl (mesh_node m' col (Suc (Suc i))) \<rparr>"
      unfolding n(4) S_def by (rule splitCurveVertically_results(2))
    show "\<forall>row. Suc i < row \<longrightarrow> row < meshHeight m \<longrightarrow>
           mesh_node m' col (Suc row) = mesh_node m col row"
      using n(5) by simp
  qed
qed

lemma subdivideColumn_between:
  assumes inv: "meshInvariant m" and i: "Suc i < meshWidth m" and row: "row < meshHeight m"
    and t: "m_columns m ! i < t" "t < m_columns m ! Suc i" and nf: "\<not> qFuzzyCompare t 1"
  obtains m' where "subdivideColumn t m = Some m'"
    and "\<forall>col<i. mesh_node m' col row = mesh_node m col row"
    and "mesh_node m' i row
           = (mesh_node m i row)\<lparr> rightControl := rightControl (mesh_node m' i row) \<rparr>"
    and "node (mesh_node m' (Suc i) row)
           = bezierCurve (node (mesh_node m i row)) (rightControl (mesh_node m i row))
               (leftControl (mesh_node m (Suc i) row)) (node (mesh_node m (Suc i) row))
               ((t - m_columns m ! i) / (m_columns m ! Suc i - m_columns m ! i))"
    and "mesh_node m' (Suc (Suc i)) row
           = (mesh_node m (Suc i) row)\<lparr> leftControl := leftControl (mesh_node m' (Suc (Suc i)) row) \<rparr>"
    and "\<forall>col. Suc i < col \<longrightarrow> col < meshWidth m \<longrightarrow>
           mesh_node m' (Suc col) row = mesh_node m col row"
proof -
  from inv i have pre: "m_columns m ! 0 = 0" "last (m_columns m) = 1" "sorted (m_columns m)"
    "Suc i < length (m_columns m)"
    by (simp_all add: meshInvariant_def)
  note b = between_positions [OF pre t]
  from subdivideColumn_grows [OF inv b(1,2) nf] obtain m'
    where res: "subdivideColumn t m = Some m'"
    by metis
  define S where "S = splitCurveHorizontally (mesh_node m i row) (mesh_node m (Suc i) row)
                  ((t - m_columns m ! i) / (m_columns m ! Suc i - m_columns m ! i)) emptyNode"
  note n = subdivideColumn_nodes [OF inv b(1,2) nf b(3) res row S_def]
  show ?thesis
  proof (rule that [OF res])
    show "\<forall>col<i. mesh_node m' col row = mesh_node m col row"
      using n(1) by simp
    show "mesh_node m' i row
           = (mesh_node m i row)\<lparr> rightControl := rightControl (mesh_node m' i row) \<rparr>"
      unfolding n(2) S_def by (rule splitCurveHorizontally_results(1))
    show "node (mesh_node m' (Suc i) row)
           = bezierCurve (node (mesh_node m i row)) (rightControl (mesh_node m i row))
               (leftControl (mesh_node m (Suc i) row)) (node (mesh_node m (Suc i) row))
               ((t - m_columns m ! i) / (m_columns m ! Suc i - m_columns m ! i))"
      unfolding n(3) S_def by (rule splitCurveHorizontally_results(3))
    show "mesh_node m' (Suc (Suc i)) row
           = (mesh_node m (Suc i) row)\<lparr> leftControl := leftControl (mesh_node m' (Suc (Suc i)) row) \<rparr>"
      unfolding n(4) S_def by (rule splitCurveHorizontally_results(2))
    show "\<forall>col. Suc i < col \<longrightarrow> col < meshWidth m \<longrightarrow>
           mesh_node m' (Suc col) row = mesh_node m col row"
      using n(5) by simp
  qed
qed

lemma exampleMesh_nodes:
  "mesh_node exampleMesh 0 0 = mkNode (QPointF 0 0)"
  "mesh_node exampleMesh (Suc 0) 0 = mkNode (QPointF 100 0)"
  "mesh_node exampleMesh 0 (Suc 0) = mkNode (QPointF 0 100)"
  "mesh_node exampleMesh (Suc 0) (Suc 0) = mkNode (QPointF 100 100)"
  by (simp_all add: exampleMesh_def newBezierMesh_node defaultSize_def)

lemma exampleMesh_size: "meshWidth exampleMesh = 2" "meshHeight exampleMesh = 2"
  by (simp_all add: exampleMesh_def newBezierMesh_def defaultSize_def meshWidth_def
      meshHeight_def)

subsection \<open>The 3 by 3 example mesh\<close>

lemma exampleMesh3_reachable: "reachable exampleMesh3"
  unfolding exampleMesh3_def by (rule reachable.constructed) simp_all

lemma exampleMesh3_positions:
  "m_rows exampleMesh3 = [0, 1 / 2, 1]" "m_columns exampleMesh3 = [0, 1 / 2, 1]"
  "meshWidth exampleMesh3 = 3" "meshHeight exampleMesh3 = 3"
  by (simp_all add: exampleMesh3_def newBezierMesh_def meshWidth_def meshHeight_def
      eval_nat_numeral upt_rec)

lemma exampleMesh3_nodes:
  "mesh_node exampleMesh3 0 0 = mkNode (QPointF 0 0)"
  "mesh_node exampleMesh3 0 (Suc 0) = mkNode (QPointF 0 50)"
  "mesh_node exampleMesh3 0 2 = mkNode (QPointF 0 100)"
  "mesh_node exampleMesh3 (Suc 0) 0 = mkNode (QPointF 50 0)"
  "mesh_node exampleMesh3 2 0 = mkNode (QPointF 100 0)"
  by (simp_all add: exampleMesh3_def newBezierMesh_node)

subsection \<open>Flat patches\<close>

lemma bezierCurve_flat:
  "bezierCurve a a b b t = lerp a b (flatCurveParameter t)"
  by (rule QPointF.expand)
    (simp add: bezierCurve_def lerp_def flatCurveParameter_def pow2_def Let_def algebra_simps)

lemma linearizeCurve_flat: "linearizeCurve a a b b = Some [0, 1]"
proof -
  have "isLinearSegment a 0 b 0"
    by (simp add: isLinearSegment_def crossProduct_def Let_def)
  then show ?thesis
    by (simp add: linearizeCurve_def linearizeLoop.simps)
qed

lemma mergeSteps_unit: "mergeSteps [0, 1] [0, 1] = [0, 1]"
  by (simp add: mergeSteps_def qFuzzyCompare_def)

lemma flatPatch_steps:
  assumes "flatPatch patch"
  shows "horizontalSteps patch = Some [0, 1]" and "verticalSteps patch = Some [0, 1]"
  using assms
  by (simp_all add: flatPatch_def horizontalSteps_def verticalSteps_def linearizeCurve_flat
      mergeSteps_unit)

lemma bilinearInterpolation_corners:
  "bilinearInterpolation patch 0 0 = points patch TL"
  "bilinearInterpolation patch 1 0 = points patch TR"
  "bilinearInterpolation patch 0 1 = points patch BL"
  "bilinearInterpolation patch 1 1 = points patch BR"
  by (simp_all add: bilinearInterpolation_def lerp_def)

lemma transfPoint_corners:
  "transfPoint patch 0 0 = points patch TL"
  "transfPoint patch 1 0 = points patch TR"
  "transfPoint patch 0 1 = points patch BL"
  "transfPoint patch 1 1 = points patch BR"
  by (rule QPointF.expand,
      simp add: transfPoint_def lerp_def bezierCurve_def pow2_def Let_def)+

lemma gridLoop_2_2:
  "gridLoop (Suc (Suc 0)) (Suc (Suc 0)) f = [f 0 0, f 1 0, f 0 1, f 1 1]"
  by (simp add: gridLoop_def upt_rec)

lemma flatPatch_sampleIrregularGrid:
  assumes "flatPatch patch"
  shows "sampleIrregularGrid patch origPoints transfPoints =
     Some (\<lparr> sizeWidth = 2, sizeHeight = 2 \<rparr>,
           origPoints @ [origPoint patch 0 0, origPoint patch 1 0, origPoint patch 0 1,
                         origPoint patch 1 1],
           transfPoints @ [bilinearInterpolation patch 0 0, bilinearInterpolation patch 1 0,
                           bilinearInterpolation patch 0 1, bilinearInterpolation patch 1 1])"
  by (simp add: sampleIrregularGrid_def flatPatch_steps [OF assms] gridLoop_2_2
      transfPoint_corners bilinearInterpolation_corners)

lemma flatPatch_transfPoint:
  assumes "flatPatch patch"
    and "points patch TL - points patch TR - points patch BL + points patch BR = 0"
  shows "transfPoint patch x y
           = bilinearInterpolation patch (flatCurveParameter x) (flatCurveParameter y)"
proof -
  from assms(2) have br: "points patch BR = points patch TR + points patch BL - points patch TL"
    by (simp add: algebra_simps)
  have "transfPoint patch x y
      = lerp (bezierCurve (points patch TL) (points patch TL) (points patch TR) (points patch TR) x)
             (bezierCurve (points patch BL) (points patch BL) (points patch BR) (points patch BR) x)
             y
        + lerp (bezierCurve (points patch TL) (points patch TL) (points patch BL) (points patch BL) y)
               (bezierCurve (points patch TR) (points patch TR) (points patch BR) (points patch BR) y)
               x
        - lerp (lerp (points patch TL) (points patch TR) x)
               (lerp (points patch BL) (points patch BR) x) y"
    using assms(1) by (simp add: transfPoint_def flatPatch_def Let_def)
  also have "\<dots> = bilinearInterpolation patch (flatCurveParameter x) (flatCurveParameter y)"
    unfolding bezierCurve_flat bilinearInterpolation_def br
    by (rule QPointF.expand) (simp add: lerp_def algebra_simps)
  finally show ?thesis .
qed

lemma flatCurveParameter_fixed:
  "flatCurveParameter x = x \<longleftrightarrow> x = 0 \<or> x = 1 / 2 \<or> x = 1"
proof -
  have "flatCurveParameter x - x = - (x * ((2 * x - 1) * (x - 1)))"
    by (simp add: flatCurveParameter_def pow2_def algebra_simps)
  then have "flatCurveParameter x = x \<longleftrightarrow> x * ((2 * x - 1) * (x - 1)) = 0"
    by (metis eq_iff_diff_eq_0 neg_equal_0_iff_equal)
  then show ?thesis
    by auto
qed

lemma makePatch_points:
  assumes "makePatch m col row = Some patch"
  shows "points patch TL = node (mesh_node m col row)"
    and "points patch TL_HC = rightControl (mesh_node m col row)"
    and "points patch TL_VC = bottomControl (mesh_node m col row)"
    and "points patch TR = node (mesh_node m (col + 1) row)"
    and "points patch TR_HC = leftControl (mesh_node m (col + 1) row)"
    and "points patch TR_VC = bottomControl (mesh_node m (col + 1) row)"
    and "points patch BL = node (mesh_node m col (row + 1))"
    and "points patch BL_HC = rightControl (mesh_node m col (row + 1))"
    and "points patch BL_VC = topControl (mesh_node m col (row + 1))"
    and "points patch BR = node (mesh_node m (col + 1) (row + 1))"
    and "points patch BR_HC = leftControl (mesh_node m (col + 1) (row + 1))"
    and "points patch BR_VC = topControl (mesh_node m (col + 1) (row + 1))"
  using assms by (auto simp add: makePatch_def Let_def split: if_splits)

lemma makePatch_Some:
  assumes "meshInvariant m" and "Suc col < meshWidth m" and "Suc row < meshHeight m"
  shows "\<exists>patch. makePatch m col row = Some patch"
proof -
  from assms(2,3) have "Suc row * meshWidth m + Suc col < meshWidth m * meshHeight m"
    by (rule grid_index_less)
  with assms show ?thesis
    by (simp add: makePatch_def meshInvariant_def Let_def)
qed

lemma newBezierMesh_patch:
  assumes sz: "2 \<le> sizeWidth sz" "2 \<le> sizeHeight sz"
    and col: "Suc col < nat (sizeWidth sz)" and row: "Suc row < nat (sizeHeight sz)"
  obtains patch where "makePatch (newBezierMesh mapRect sz) col row = Some patch"
    and "flatPatch patch"
    and "points patch TL - points patch TR - points patch BL + points patch BR = 0"
    and "xp (points patch TR) - xp (points patch TL)
           = rectWidth mapRect / real_of_int (sizeWidth sz - 1)"
    and "yp (points patch TR) = yp (points patch TL)"
    and "yp (points patch BL) - yp (points patch TL)
           = rectHeight mapRect / real_of_int (sizeHeight sz - 1)"
    and "xp (points patch BL) = xp (points patch TL)"
proof -
  let ?m = "newBezierMesh mapRect sz"
  have inv: "meshInvariant ?m"
    using sz by (rule newBezierMesh_invariant)
  have wh: "meshWidth ?m = nat (sizeWidth sz)" "meshHeight ?m = nat (sizeHeight sz)"
    by (simp_all add: meshWidth_def meshHeight_def newBezierMesh_def)
  from makePatch_Some [OF inv] col row wh obtain patch
    where p: "makePatch ?m col row = Some patch"
    by auto
  note pts = makePatch_points [OF p]
  from col row have b: "col < nat (sizeWidth sz)" "row < nat (sizeHeight sz)"
    by simp_all
  note nodes = newBezierMesh_node [OF b(1) b(2), of mapRect]
    newBezierMesh_node [OF col b(2), of mapRect]
    newBezierMesh_node [OF b(1) row, of mapRect]
    newBezierMesh_node [OF col row, of mapRect]
  have flat: "flatPatch patch"
    by (simp add: flatPatch_def pts nodes mkNode_def)
  have par: "points patch TL - points patch TR - points patch BL + points patch BR = 0"
    by (rule QPointF.expand) (simp_all add: pts nodes mkNode_def)
  have dx: "xp (points patch TR) - xp (points patch TL)
           = rectWidth mapRect / real_of_int (sizeWidth sz - 1)"
    by (simp add: pts nodes mkNode_def algebra_simps add_divide_distrib)
  have dy: "yp (points patch BL) - yp (points patch TL)
           = rectHeight mapRect / real_of_int (sizeHeight sz - 1)"
    by (simp add: pts nodes mkNode_def algebra_simps add_divide_distrib)
  have eqs: "yp (points patch TR) = yp (points patch TL)"
    "xp (points patch BL) = xp (points patch TL)"
    by (simp_all add: pts nodes mkNode_def)
  show ?thesis
    by (rule that [OF p flat par dx eqs(1) dy eqs(2)])
qed

lemma rectangle_bilinear_eq:
  assumes par: "points patch TL - points patch TR - points patch BL + points patch BR = 0"
    and dx: "xp (points patch TR) - xp (points patch TL) \<noteq> 0"
      "yp (points patch TR) = yp (points patch TL)"
    and dy: "yp (points patch BL) - yp (points patch TL) \<noteq> 0"
      "xp (points patch BL) = xp (points patch TL)"
  shows "bilinearInterpolation patch a b = bilinearInterpolation patch a' b'
           \<longleftrightarrow> a = a' \<and> b = b'"
proof -
  from par have br: "points patch BR = points patch TR + points patch BL - points patch TL"
    by (simp add: algebra_simps)
  have x: "xp (bilinearInterpolation patch u v)
      = xp (points patch TL) + u * (xp (points patch TR) - xp (points patch TL))" for u v
    unfolding bilinearInterpolation_def br by (simp add: lerp_def dx dy algebra_simps)
  have y: "yp (bilinearInterpolation patch u v)
      = yp (points patch TL) + v * (yp (points patch BL) - yp (points patch TL))" for u v
    unfolding bilinearInterpolation_def br by (simp add: lerp_def dx dy algebra_simps)
  show ?thesis
  proof
    assume eq: "bilinearInterpolation patch a b = bilinearInterpolation patch a' b'"
    from arg_cong [OF eq, of xp] dx(1) have "a = a'"
      by (simp add: x)
    moreover from arg_cong [OF eq, of yp] dy(1) have "b = b'"
      by (simp add: y)
    ultimately show "a = a' \<and> b = b'" ..
  next
    assume "a = a' \<and> b = b'"
    then show "bilinearInterpolation patch a b = bilinearInterpolation patch a' b'"
      by simp
  qed
qed

lemma exampleMesh_patch_regular:
  "(case makePatch exampleMesh 0 0 of
      None \<Rightarrow> False
    | Some patch \<Rightarrow>
        (case sampleRegularGrid patch [] [] (QPointF 30 30) of
           None \<Rightarrow> False
         | Some (gridSize, origPoints, transfPoints) \<Rightarrow>
             gridSize = \<lparr> sizeWidth = 4, sizeHeight = 4 \<rparr> \<and>
             transfPoints ! 1 = QPointF (700 / 27) 0))"
  by code_simp

subsection \<open>The loop of linearizeCurve ends\<close>

lemma halvings_half:
  assumes "0 < m" and "m \<le> g"
  shows "halvings m g = Suc (halvings m (g / 2))"
proof (cases "g / 2 < m")
  case True
  from assms have "1 \<le> g / m" by simp
  then have "0 \<le> log 2 (g / m)" by simp
  moreover from True assms have "g / m < 2"
    by (simp add: divide_less_eq)
  then have "log 2 (g / m) < 1"
    using assms \<open>1 \<le> g / m\<close> by (simp add: log_less_iff)
  ultimately have "\<lfloor>log 2 (g / m)\<rfloor> = 0"
    by linarith
  with True assms show ?thesis
    by (simp add: halvings_def)
next
  case False
  with assms have ge: "2 \<le> g / m"
    by (simp add: le_divide_eq)
  then have "1 \<le> log 2 (g / m)"
    by (simp add: le_log_iff)
  then have fl: "1 \<le> \<lfloor>log 2 (g / m)\<rfloor>"
    by linarith
  have "log 2 (g / 2 / m) = log 2 (g / m) - 1"
  proof -
    have eq: "g / 2 / m = (g / m) / 2" by simp
    from ge have "0 < g / m" by simp
    then have "log 2 ((g / m) / 2) = log 2 (g / m) - log 2 2"
      by (intro log_divide_pos) simp_all
    also have "log 2 (2::real) = 1" by simp
    finally show ?thesis
      unfolding eq .
  qed
  then have "\<lfloor>log 2 (g / 2 / m)\<rfloor> = \<lfloor>log 2 (g / m)\<rfloor> - 1"
    by simp
  with fl False assms show ?thesis
    by (simp add: halvings_def nat_diff_distrib)
qed

lemma intervalCost_pos: "0 < intervalCost m g"
proof -
  have "(1::nat) \<le> 2 ^ halvings m g" by simp
  then have "(2::nat) \<le> 2 ^ (halvings m g + 1)" by simp
  then show ?thesis
    unfolding intervalCost_def by linarith
qed

lemma intervalCost_half:
  assumes "0 < m" and "m \<le> g"
  shows "2 * intervalCost m (g / 2) < intervalCost m g"
proof -
  define k :: nat where "k = 2 ^ (halvings m (g / 2) + 1)"
  have "1 \<le> k" by (simp add: k_def)
  moreover have "intervalCost m (g / 2) = k - 1"
    by (simp add: intervalCost_def k_def)
  moreover have "intervalCost m g = 2 * k - 1"
    by (simp add: intervalCost_def k_def halvings_half [OF assms])
  ultimately show ?thesis
    by linarith
qed

lemma linearizeLoop_returns_bounded:
  assumes "0 < m"
  shows "\<exists>r. linearizeLoop c (Quotient m) lastP lastD lastT steps stackedPoints = Some r"
proof (induction "loopMeasure m lastT stackedPoints"
    arbitrary: lastP lastD lastT steps stackedPoints rule: less_induct)
  case less
  show ?case
  proof (cases stackedPoints)
    case Nil
    then show ?thesis
      by (simp add: linearizeLoop.simps)
  next
    case (Cons e rest)
    define p where "p = fst e"
    define d where "d = fst (snd e)"
    define t where "t = snd (snd e)"
    show ?thesis
    proof (cases "less_quotient (t - lastT) (Quotient m) \<or> isLinearSegment lastP lastD p d")
      case True
      have "loopMeasure m t rest < loopMeasure m lastT stackedPoints"
        using intervalCost_pos [of m "t - lastT"] by (simp add: Cons t_def)
      from less [OF this, of p d "steps @ [t]"] obtain r
        where "linearizeLoop c (Quotient m) p d t (steps @ [t]) rest = Some r"
        by blast
      with True show ?thesis
        by (subst linearizeLoop.simps) (simp add: Cons p_def d_def t_def Let_def)
    next
      case False
      then have g: "m \<le> t - lastT" by simp
      define t' where "t' = 0.5 * (lastT + t)"
      define p' where "p' = bezierCurve (fst c) (fst (snd c)) (fst (snd (snd c)))
                               (snd (snd (snd c))) t'"
      define d' where "d' = bezierCurveDeriv (fst c) (fst (snd c)) (fst (snd (snd c)))
                               (snd (snd (snd c))) t'"
      have halves: "t' - lastT = (t - lastT) / 2" "t - t' = (t - lastT) / 2"
        by (simp_all add: t'_def field_simps)
      have "loopMeasure m lastT ((p', d', t') # stackedPoints)
              < loopMeasure m lastT stackedPoints"
        using intervalCost_half [OF assms g] by (simp add: Cons t_def [symmetric] halves)
      from less [OF this, of lastP lastD steps] obtain r
        where "linearizeLoop c (Quotient m) lastP lastD lastT steps
                 ((p', d', t') # stackedPoints) = Some r"
        by blast
      with False show ?thesis
        by (subst linearizeLoop.simps)
          (simp add: Cons p_def d_def t_def t'_def p'_def d'_def Let_def)
    qed
  qed
qed

lemma linearizeLoop_returns_unbounded:
  "\<exists>r. linearizeLoop c DivisionByZero lastP lastD lastT steps stackedPoints = Some r"
proof (induction stackedPoints arbitrary: lastP lastD lastT steps)
  case Nil
  then show ?case by (simp add: linearizeLoop.simps)
next
  case (Cons e rest)
  from Cons [of "fst e" "fst (snd e)" "snd (snd e)" "steps @ [snd (snd e)]"]
  show ?case
    by (subst linearizeLoop.simps) (simp add: Let_def)
qed

lemma linearizeCurve_returns: "\<exists>steps. linearizeCurve a b c d = Some steps"
proof (cases "kisDistance a d = 0")
  case True
  then show ?thesis
    unfolding linearizeCurve_def minStepSize_def divide_qreal_def
    using linearizeLoop_returns_unbounded by simp
next
  case False
  moreover have "0 \<le> kisDistance a d"
    by (simp add: kisDistance_def kisSquareDistance_def pow2_def)
  ultimately have "0 < 2 / kisDistance a d" by simp
  from linearizeLoop_returns_bounded [OF this] False show ?thesis
    unfolding linearizeCurve_def minStepSize_def divide_qreal_def by simp
qed

lemma sampleIrregularGrid_returns:
  obtains hs vs where "horizontalSteps patch = Some hs" and "verticalSteps patch = Some vs"
    and "sampleIrregularGrid patch origPoints transfPoints =
           Some (\<lparr> sizeWidth = int (length hs), sizeHeight = int (length vs) \<rparr>,
                 origPoints @ gridLoop (length hs) (length vs)
                                (\<lambda>x y. origPoint patch (hs ! x) (vs ! y)),
                 transfPoints @ gridLoop (length hs) (length vs)
                                  (\<lambda>x y. transfPoint patch (hs ! x) (vs ! y)))"
proof -
  obtain a b c d where
    "linearizeCurve (points patch TL) (points patch TL_HC) (points patch TR_HC) (points patch TR)
       = Some a"
    "linearizeCurve (points patch BL) (points patch BL_HC) (points patch BR_HC) (points patch BR)
       = Some b"
    "linearizeCurve (points patch TL) (points patch TL_VC) (points patch BL_VC) (points patch BL)
       = Some c"
    "linearizeCurve (points patch TR) (points patch TR_VC) (points patch BR_VC) (points patch BR)
       = Some d"
    using linearizeCurve_returns by metis
  then have "horizontalSteps patch = Some (mergeSteps a b)"
    "verticalSteps patch = Some (mergeSteps c d)"
    by (simp_all add: horizontalSteps_def verticalSteps_def)
  then show ?thesis
    by (intro that [of "mergeSteps a b" "mergeSteps c d"])
      (simp_all add: sampleIrregularGrid_def)
qed

section \<open>The claims\<close>

subsection \<open>Repeated subdivision\<close>

text \<open>
  C1, as stated: \<open>subdivideRow(t)\<close> (and \<open>subdivideColumn(t)\<close>) called twice with the
  same \<open>t\<close> changes the mesh only on the first call, a call with \<open>t\<close> at an existing row
  position being a no-op. It fails for the 2 by 2 mesh over the rectangle
  \<open>(0, 0, 100, 100)\<close> and \<open>t = 0.5\<close>: after the first call 0.5 is a row position, and
  the second call inserts a row again.
\<close>

theorem subdivideRow_repeated_changes_mesh:
  "(case subdivideRow (1 / 2) exampleMesh of
      None \<Rightarrow> False
    | Some m1 \<Rightarrow> 1 / 2 \<in> set (m_rows m1) \<and>
        (case subdivideRow (1 / 2) m1 of
           None \<Rightarrow> False
         | Some m2 \<Rightarrow> m2 \<noteq> m1 \<and> sizeHeight (m_size m1) = 3 \<and> sizeHeight (m_size m2) = 4
                     \<and> m_rows m2 = [0, 1 / 2, 1 / 2, 1]))"
  using exampleMesh_subdivideRow_half_twice
  by (simp add: exampleMesh_subdivideRow_half)

text \<open>
  C1, amended: for every reachable mesh, a call \<open>subdivideRow(t)\<close> is a no-op (node
  storage, sequences and size unchanged) when \<open>t\<close> is 0.0, is within the tolerance of
  \<open>qFuzzyCompare\<close> of 1.0, or is outside \<open>(0, 1)\<close>; for every other \<open>t\<close>, also one
  equal to an existing row position, each call inserts a row: the height and the row
  sequence grow by one and the storage by width nodes, so two calls with the same \<open>t\<close>
  grow them by two. The same holds of \<open>subdivideColumn(t)\<close>, with the width, the column
  sequence and height nodes.
\<close>

theorem subdivide_noop_or_grows:
  assumes "reachable m"
  shows "(case subdivideRow t m of None \<Rightarrow> False | Some m' \<Rightarrow>
           (if qFuzzyCompare t 0 \<or> qFuzzyCompare t 1 \<or> \<not> (0 < t \<and> t < 1) then m' = m
            else sizeHeight (m_size m') = sizeHeight (m_size m) + 1
               \<and> length (m_rows m') = length (m_rows m) + 1 \<and> t \<in> set (m_rows m')
               \<and> length (m_nodes m') = length (m_nodes m) + meshWidth m) \<and>
           (case subdivideRow t m' of None \<Rightarrow> False | Some m'' \<Rightarrow>
              if qFuzzyCompare t 0 \<or> qFuzzyCompare t 1 \<or> \<not> (0 < t \<and> t < 1) then m'' = m
              else sizeHeight (m_size m'') = sizeHeight (m_size m) + 2
                 \<and> length (m_rows m'') = length (m_rows m) + 2
                 \<and> length (m_nodes m'') = length (m_nodes m) + 2 * meshWidth m)) \<and>
         (case subdivideColumn t m of None \<Rightarrow> False | Some m' \<Rightarrow>
           (if qFuzzyCompare t 0 \<or> qFuzzyCompare t 1 \<or> \<not> (0 < t \<and> t < 1) then m' = m
            else sizeWidth (m_size m') = sizeWidth (m_size m) + 1
               \<and> length (m_columns m') = length (m_columns m) + 1 \<and> t \<in> set (m_columns m')
               \<and> length (m_nodes m') = length (m_nodes m) + meshHeight m) \<and>
           (case subdivideColumn t m' of None \<Rightarrow> False | Some m'' \<Rightarrow>
              if qFuzzyCompare t 0 \<or> qFuzzyCompare t 1 \<or> \<not> (0 < t \<and> t < 1) then m'' = m
              else sizeWidth (m_size m'') = sizeWidth (m_size m) + 2
                 \<and> length (m_columns m'') = length (m_columns m) + 2
                 \<and> length (m_nodes m'') = length (m_nodes m) + 2 * meshHeight m))"
  using subdivideRow_twice [OF reachable_invariant [OF assms], of t]
    subdivideColumn_twice [OF reachable_invariant [OF assms], of t]
  by simp

text \<open>
  On the example mesh: \<open>t = 1\<close> leaves it as it is, twice; \<open>t = 0.5\<close> takes its
  height from 2 to 3, and a second call, with 0.5 now a row position, to 4.
\<close>

theorem subdivide_noop_or_grows_witness:
  "reachable exampleMesh \<and>
   subdivideRow 1 exampleMesh = Some exampleMesh \<and>
   Option.bind (subdivideRow 1 exampleMesh) (subdivideRow 1) = Some exampleMesh \<and>
   (case subdivideRow (1 / 2) exampleMesh of None \<Rightarrow> False | Some m' \<Rightarrow>
      sizeHeight (m_size m') = 3 \<and>
      (case subdivideRow (1 / 2) m' of None \<Rightarrow> False | Some m'' \<Rightarrow>
         sizeHeight (m_size m'') = 4))"
proof -
  note one = subdivide_noop_or_grows [OF exampleMesh_reachable, of 1]
  note half = subdivide_noop_or_grows [OF exampleMesh_reachable, of "1 / 2"]
  have f: "qFuzzyCompare 1 1" "\<not> qFuzzyCompare (1 / 2) 0" "\<not> qFuzzyCompare (1 / 2) 1"
    by (simp_all add: qFuzzyCompare_def)
  have sz: "sizeHeight (m_size exampleMesh) = 2"
    by (simp add: exampleMesh_def newBezierMesh_def defaultSize_def)
  from one f have a: "subdivideRow 1 exampleMesh = Some exampleMesh"
    by (cases "subdivideRow 1 exampleMesh") simp_all
  from half f sz have b: "case subdivideRow (1 / 2) exampleMesh of None \<Rightarrow> False | Some m' \<Rightarrow>
      sizeHeight (m_size m') = 3 \<and>
      (case subdivideRow (1 / 2) m' of None \<Rightarrow> False | Some m'' \<Rightarrow>
         sizeHeight (m_size m'') = 4)"
    by (auto split: option.splits)
  from a b show ?thesis
    by (simp add: exampleMesh_reachable)
qed

subsection \<open>Fresh meshes\<close>

text \<open>
  C2, as stated: for every patch of a freshly constructed mesh the destination points of
  \<open>sampleIrregularGrid\<close> and of \<open>sampleRegularGrid\<close> equal the bilinear interpolation
  of the four corners at the sampled proportions. For the patch of the 2 by 2 mesh over
  \<open>(0, 0, 100, 100)\<close> and the step \<open>(30, 30)\<close> the regular grid is 4 by 4; at the grid
  position \<open>(1, 0)\<close>, with the proportions \<open>(1/3, 0)\<close>, \<open>sampleRegularGrid\<close> gives
  \<open>(700/27, 0)\<close>, and the bilinear interpolation is \<open>(100/3, 0)\<close>.
\<close>

theorem sampleRegularGrid_not_bilinear:
  "(case makePatch exampleMesh 0 0 of
      None \<Rightarrow> False
    | Some patch \<Rightarrow>
        (case sampleRegularGrid patch [] [] (QPointF 30 30) of
           None \<Rightarrow> False
         | Some (gridSize, origPoints, transfPoints) \<Rightarrow>
             gridSize = \<lparr> sizeWidth = 4, sizeHeight = 4 \<rparr> \<and>
             xProportionOf gridSize 1 = 1 / 3 \<and> yProportionOf gridSize 0 = 0 \<and>
             transfPoints ! 1 = QPointF (700 / 27) 0 \<and>
             bilinearInterpolation patch (1 / 3) 0 = QPointF (100 / 3) 0 \<and>
             transfPoints ! 1 \<noteq> bilinearInterpolation patch (1 / 3) 0))"
  by code_simp

text \<open>
  C2, amended: in a freshly constructed mesh every node's four control points equal its
  position. For every patch made from such a mesh, \<open>sampleIrregularGrid\<close> samples the
  proportions 0 and 1 only (a 2 by 2 grid) and its destination points are the bilinear
  interpolation of the four corners there, that is, the corners; the point
  \<open>Sc + Sd - Sb\<close> that both samplers compute at the proportions \<open>(x, y)\<close> is the
  bilinear interpolation of the corners at the proportions
  \<open>(3 x^2 - 2 x^3, 3 y^2 - 2 y^3)\<close>, and so is every destination point of
  \<open>sampleRegularGrid\<close>; over a rectangle of non-zero width and height it is the bilinear
  interpolation at \<open>(x, y)\<close> itself exactly when \<open>x\<close> and \<open>y\<close> are among 0, 1/2, 1.
\<close>

theorem fresh_mesh_flatness:
  assumes "2 \<le> sizeWidth sz" and "2 \<le> sizeHeight sz"
  shows "(\<forall>n\<in>set (m_nodes (newBezierMesh mapRect sz)).
            leftControl n = node n \<and> topControl n = node n \<and> rightControl n = node n
            \<and> bottomControl n = node n) \<and>
         (Suc col < nat (sizeWidth sz) \<longrightarrow> Suc row < nat (sizeHeight sz) \<longrightarrow>
            (case makePatch (newBezierMesh mapRect sz) col row of
               None \<Rightarrow> False
             | Some patch \<Rightarrow>
                 horizontalSteps patch = Some [0, 1] \<and> verticalSteps patch = Some [0, 1] \<and>
                 (\<exists>origPoints'. sampleIrregularGrid patch origPoints transfPoints =
                    Some (\<lparr> sizeWidth = 2, sizeHeight = 2 \<rparr>, origPoints',
                          transfPoints @ [bilinearInterpolation patch 0 0,
                                          bilinearInterpolation patch 1 0,
                                          bilinearInterpolation patch 0 1,
                                          bilinearInterpolation patch 1 1])) \<and>
                 (\<forall>x y. transfPoint patch x y
                    = bilinearInterpolation patch (flatCurveParameter x) (flatCurveParameter y)) \<and>
                 (\<forall>dstStep gridSize origPoints' transfPoints' x y.
                    sampleRegularGrid patch origPoints transfPoints dstStep
                      = Some (gridSize, origPoints', transfPoints') \<longrightarrow>
                    x < nat (sizeWidth gridSize) \<longrightarrow> y < nat (sizeHeight gridSize) \<longrightarrow>
                    transfPoints' ! (length transfPoints + y * nat (sizeWidth gridSize) + x)
                      = bilinearInterpolation patch (flatCurveParameter (xProportionOf gridSize x))
                          (flatCurveParameter (yProportionOf gridSize y))) \<and>
                 (rectWidth mapRect \<noteq> 0 \<longrightarrow> rectHeight mapRect \<noteq> 0 \<longrightarrow>
                    (\<forall>x y. transfPoint patch x y = bilinearInterpolation patch x y
                       \<longleftrightarrow> (x = 0 \<or> x = 1 / 2 \<or> x = 1) \<and> (y = 0 \<or> y = 1 / 2 \<or> y = 1)))))"
proof (intro conjI impI ballI)
  fix n assume "n \<in> set (m_nodes (newBezierMesh mapRect sz))"
  then have "leftControl n = node n \<and> topControl n = node n \<and> rightControl n = node n
         \<and> bottomControl n = node n"
    by (rule newBezierMesh_flat)
  then show "leftControl n = node n" "topControl n = node n" "rightControl n = node n"
    "bottomControl n = node n"
    by simp_all
next
  assume col: "Suc col < nat (sizeWidth sz)" and row: "Suc row < nat (sizeHeight sz)"
  from newBezierMesh_patch [OF assms col row, of mapRect] obtain patch
    where p: "makePatch (newBezierMesh mapRect sz) col row = Some patch"
      and flat: "flatPatch patch"
      and par: "points patch TL - points patch TR - points patch BL + points patch BR = 0"
      and dx: "xp (points patch TR) - xp (points patch TL)
                 = rectWidth mapRect / real_of_int (sizeWidth sz - 1)"
        "yp (points patch TR) = yp (points patch TL)"
      and dy: "yp (points patch BL) - yp (points patch TL)
                 = rectHeight mapRect / real_of_int (sizeHeight sz - 1)"
        "xp (points patch BL) = xp (points patch TL)"
    by metis
  note tp = flatPatch_transfPoint [OF flat par]
  have reg: "transfPoints' ! (length transfPoints + y * nat (sizeWidth gridSize) + x)
      = bilinearInterpolation patch (flatCurveParameter (xProportionOf gridSize x))
          (flatCurveParameter (yProportionOf gridSize y))"
    if "sampleRegularGrid patch origPoints transfPoints dstStep
          = Some (gridSize, origPoints', transfPoints')"
      "x < nat (sizeWidth gridSize)" "y < nat (sizeHeight gridSize)"
    for dstStep gridSize origPoints' transfPoints' x y
    using sampleRegularGrid_transf_nth [OF that] by (simp add: tp)
  have fixed: "transfPoint patch x y = bilinearInterpolation patch x y
      \<longleftrightarrow> (x = 0 \<or> x = 1 / 2 \<or> x = 1) \<and> (y = 0 \<or> y = 1 / 2 \<or> y = 1)"
    if "rectWidth mapRect \<noteq> 0" "rectHeight mapRect \<noteq> 0" for x y
  proof -
    from that assms have "xp (points patch TR) - xp (points patch TL) \<noteq> 0"
      "yp (points patch BL) - yp (points patch TL) \<noteq> 0"
      by (simp_all add: dx dy)
    from rectangle_bilinear_eq [OF par this(1) dx(2) this(2) dy(2)]
    show ?thesis
      by (simp add: tp flatCurveParameter_fixed)
  qed
  show "case makePatch (newBezierMesh mapRect sz) col row of
               None \<Rightarrow> False
             | Some patch \<Rightarrow>
                 horizontalSteps patch = Some [0, 1] \<and> verticalSteps patch = Some [0, 1] \<and>
                 (\<exists>origPoints'. sampleIrregularGrid patch origPoints transfPoints =
                    Some (\<lparr> sizeWidth = 2, sizeHeight = 2 \<rparr>, origPoints',
                          transfPoints @ [bilinearInterpolation patch 0 0,
                                          bilinearInterpolation patch 1 0,
                                          bilinearInterpolation patch 0 1,
                                          bilinearInterpolation patch 1 1])) \<and>
                 (\<forall>x y. transfPoint patch x y
                    = bilinearInterpolation patch (flatCurveParameter x) (flatCurveParameter y)) \<and>
                 (\<forall>dstStep gridSize origPoints' transfPoints' x y.
                    sampleRegularGrid patch origPoints transfPoints dstStep
                      = Some (gridSize, origPoints', transfPoints') \<longrightarrow>
                    x < nat (sizeWidth gridSize) \<longrightarrow> y < nat (sizeHeight gridSize) \<longrightarrow>
                    transfPoints' ! (length transfPoints + y * nat (sizeWidth gridSize) + x)
                      = bilinearInterpolation patch (flatCurveParameter (xProportionOf gridSize x))
                          (flatCurveParameter (yProportionOf gridSize y))) \<and>
                 (rectWidth mapRect \<noteq> 0 \<longrightarrow> rectHeight mapRect \<noteq> 0 \<longrightarrow>
                    (\<forall>x y. transfPoint patch x y = bilinearInterpolation patch x y
                       \<longleftrightarrow> (x = 0 \<or> x = 1 / 2 \<or> x = 1) \<and> (y = 0 \<or> y = 1 / 2 \<or> y = 1)))"
    unfolding p option.case
    using flatPatch_steps [OF flat] flatPatch_sampleIrregularGrid [OF flat] tp reg fixed
    by (intro conjI allI impI exI) blast+
qed

text \<open>
  On the patch of the 2 by 2 example mesh: the nodes are flat, the irregular grid is
  the four corners, the point at the proportions \<open>(1/3, 0)\<close> is \<open>(700/27, 0)\<close> and not
  the bilinear interpolation \<open>(100/3, 0)\<close>, the point at \<open>(1/2, 1/2)\<close> is the bilinear
  interpolation, and the second point of the regular grid of step \<open>(30, 30)\<close> is the
  bilinear interpolation at the proportions \<open>(7/27, 0)\<close>.
\<close>

theorem fresh_mesh_flatness_witness:
  "2 \<le> sizeWidth defaultSize \<and> 2 \<le> sizeHeight defaultSize \<and>
   Suc 0 < nat (sizeWidth defaultSize) \<and> Suc 0 < nat (sizeHeight defaultSize) \<and>
   leftControl (m_nodes exampleMesh ! 1) = node (m_nodes exampleMesh ! 1) \<and>
   (case makePatch exampleMesh 0 0 of
      None \<Rightarrow> False
    | Some patch \<Rightarrow>
        horizontalSteps patch = Some [0, 1] \<and> verticalSteps patch = Some [0, 1] \<and>
        map_option (\<lambda>r. snd (snd r)) (sampleIrregularGrid patch [] [])
          = Some [QPointF 0 0, QPointF 100 0, QPointF 0 100, QPointF 100 100] \<and>
        transfPoint patch (1 / 3) 0 = QPointF (700 / 27) 0 \<and>
        bilinearInterpolation patch (1 / 3) 0 = QPointF (100 / 3) 0 \<and>
        transfPoint patch (1 / 2) (1 / 2) = bilinearInterpolation patch (1 / 2) (1 / 2) \<and>
        (case sampleRegularGrid patch [] [] (QPointF 30 30) of
           None \<Rightarrow> False
         | Some (gridSize, origPoints, transfPoints) \<Rightarrow>
             transfPoints ! 1
               = bilinearInterpolation patch (flatCurveParameter (1 / 3)) (flatCurveParameter 0)))"
proof -
  have sz: "2 \<le> sizeWidth defaultSize" "2 \<le> sizeHeight defaultSize"
    "Suc 0 < nat (sizeWidth defaultSize)" "Suc 0 < nat (sizeHeight defaultSize)"
    by (simp_all add: defaultSize_def)
  note inst = fresh_mesh_flatness [OF sz(1,2), of
      "\<lparr> rectX = 0, rectY = 0, rectWidth = 100, rectHeight = 100 \<rparr>" 0 0 "[]" "[]",
      folded exampleMesh_def]
  have "m_nodes exampleMesh ! 1 \<in> set (m_nodes exampleMesh)"
    by (simp add: exampleMesh_def newBezierMesh_def defaultSize_def gridLoop_length)
  with inst have a: "leftControl (m_nodes exampleMesh ! 1) = node (m_nodes exampleMesh ! 1)"
    by blast
  from inst sz(3,4) have b: "case makePatch exampleMesh 0 0 of
               None \<Rightarrow> False
             | Some patch \<Rightarrow>
                 horizontalSteps patch = Some [0, 1] \<and> verticalSteps patch = Some [0, 1] \<and>
                 (\<exists>origPoints'. sampleIrregularGrid patch [] [] =
                    Some (\<lparr> sizeWidth = 2, sizeHeight = 2 \<rparr>, origPoints',
                          [] @ [bilinearInterpolation patch 0 0,
                                          bilinearInterpolation patch 1 0,
                                          bilinearInterpolation patch 0 1,
                                          bilinearInterpolation patch 1 1])) \<and>
                 (\<forall>x y. transfPoint patch x y
                    = bilinearInterpolation patch (flatCurveParameter x) (flatCurveParameter y)) \<and>
                 (\<forall>dstStep gridSize origPoints' transfPoints' x y.
                    sampleRegularGrid patch [] [] dstStep
                      = Some (gridSize, origPoints', transfPoints') \<longrightarrow>
                    x < nat (sizeWidth gridSize) \<longrightarrow> y < nat (sizeHeight gridSize) \<longrightarrow>
                    transfPoints' ! (length ([]::QPointF list) + y * nat (sizeWidth gridSize) + x)
                      = bilinearInterpolation patch (flatCurveParameter (xProportionOf gridSize x))
                          (flatCurveParameter (yProportionOf gridSize y))) \<and>
                 (rectWidth \<lparr> rectX = 0, rectY = 0, rectWidth = 100, rectHeight = 100 \<rparr> \<noteq> 0
                  \<longrightarrow> rectHeight \<lparr> rectX = 0, rectY = 0, rectWidth = 100, rectHeight = 100 \<rparr> \<noteq> 0
                  \<longrightarrow> (\<forall>x y. transfPoint patch x y = bilinearInterpolation patch x y
                       \<longleftrightarrow> (x = 0 \<or> x = 1 / 2 \<or> x = 1) \<and> (y = 0 \<or> y = 1 / 2 \<or> y = 1)))"
    by blast
  show ?thesis
  proof (cases "makePatch exampleMesh 0 0")
    case None
    with b show ?thesis by simp
  next
    case (Some patch)
    note pts = makePatch_points [OF Some]
    have corners: "points patch TL = QPointF 0 0" "points patch TR = QPointF 100 0"
      "points patch BL = QPointF 0 100" "points patch BR = QPointF 100 100"
      by (simp_all add: pts exampleMesh_nodes mkNode_def)
    have nz: "rectWidth \<lparr> rectX = 0, rectY = 0, rectWidth = 100, rectHeight = 100 \<rparr> \<noteq> 0"
      "rectHeight \<lparr> rectX = 0, rectY = 0, rectWidth = 100, rectHeight = 100 \<rparr> \<noteq> 0"
      by simp_all
    from b nz have steps: "horizontalSteps patch = Some [0, 1]" "verticalSteps patch = Some [0, 1]"
      and irr: "\<exists>origPoints'. sampleIrregularGrid patch [] [] =
                    Some (\<lparr> sizeWidth = 2, sizeHeight = 2 \<rparr>, origPoints',
                          [] @ [bilinearInterpolation patch 0 0,
                                          bilinearInterpolation patch 1 0,
                                          bilinearInterpolation patch 0 1,
                                          bilinearInterpolation patch 1 1])"
      and tp: "\<And>x y. transfPoint patch x y
                    = bilinearInterpolation patch (flatCurveParameter x) (flatCurveParameter y)"
      and reg: "\<And>dstStep gridSize origPoints' transfPoints' x y.
                    sampleRegularGrid patch [] [] dstStep
                      = Some (gridSize, origPoints', transfPoints') \<Longrightarrow>
                    x < nat (sizeWidth gridSize) \<Longrightarrow> y < nat (sizeHeight gridSize) \<Longrightarrow>
                    transfPoints' ! (length ([]::QPointF list) + y * nat (sizeWidth gridSize) + x)
                      = bilinearInterpolation patch (flatCurveParameter (xProportionOf gridSize x))
                          (flatCurveParameter (yProportionOf gridSize y))"
      and fixed: "\<And>x y. transfPoint patch x y = bilinearInterpolation patch x y
                       \<longleftrightarrow> (x = 0 \<or> x = 1 / 2 \<or> x = 1) \<and> (y = 0 \<or> y = 1 / 2 \<or> y = 1)"
      unfolding Some option.case by blast+
    from irr have i: "map_option (\<lambda>r. snd (snd r)) (sampleIrregularGrid patch [] [])
          = Some [QPointF 0 0, QPointF 100 0, QPointF 0 100, QPointF 100 100]"
      by (auto simp add: bilinearInterpolation_corners corners)
    have t: "transfPoint patch (1 / 3) 0 = QPointF (700 / 27) 0"
      by (simp add: tp bilinearInterpolation_def corners lerp_def flatCurveParameter_def
          pow2_def QPointF_ops)
    have bl: "bilinearInterpolation patch (1 / 3) 0 = QPointF (100 / 3) 0"
      by (simp add: bilinearInterpolation_def corners lerp_def QPointF_ops)
    have h: "transfPoint patch (1 / 2) (1 / 2) = bilinearInterpolation patch (1 / 2) (1 / 2)"
      by (simp add: fixed)
    have r: "case sampleRegularGrid patch [] [] (QPointF 30 30) of
           None \<Rightarrow> False
         | Some (gridSize, origPoints, transfPoints) \<Rightarrow>
             transfPoints ! 1
               = bilinearInterpolation patch (flatCurveParameter (1 / 3)) (flatCurveParameter 0)"
    proof (cases "sampleRegularGrid patch [] [] (QPointF 30 30)")
      case None
      with exampleMesh_patch_regular Some show ?thesis by simp
    next
      case (Some res)
      obtain gridSize origPoints transfPoints where res: "res = (gridSize, origPoints, transfPoints)"
        by (cases res)
      from exampleMesh_patch_regular \<open>makePatch exampleMesh 0 0 = Some patch\<close> Some res
      have gs: "gridSize = \<lparr> sizeWidth = 4, sizeHeight = 4 \<rparr>"
        by simp
      from reg [of "QPointF 30 30" gridSize origPoints transfPoints 1 0] Some res gs
      show ?thesis
        by (simp add: xProportionOf_def yProportionOf_def)
    qed
    from a steps i t bl h r sz Some show ?thesis
      by simp
  qed
qed

subsection \<open>The segment test on the negative side\<close>

text \<open>
  C3. \<open>isLinearSegment p0 d0 p1 d1\<close> is claimed to be false whenever the offset of an
  endpoint tangent from the chord (the cross product of the chord with the tangent, times
  \<open>1 / 3 / dist\<close>) exceeds 1 in absolute value, on either side of the chord. The code
  tests \<open>offset > 1.0\<close> only (its comment: \<open>TODO: handle negative projection case\<close>):
  for the chord from \<open>(0, 0)\<close> to \<open>(1, 0)\<close> and the tangent \<open>(0, -6)\<close> at the first
  endpoint the offset is \<open>-2\<close> and the result is true, while the mirrored tangent
  \<open>(0, 6)\<close>, with the offset \<open>2\<close>, gives false.
\<close>

theorem isLinearSegment_negative_side:
  "isLinearSegment (QPointF 0 0) (QPointF 0 (- 6)) (QPointF 1 0) (QPointF 0 0) = True \<and>
   1 / 3 / norm2D (QPointF 1 0 - QPointF 0 0)
     * crossProduct (QPointF 1 0 - QPointF 0 0) (QPointF 0 (- 6)) = - 2 \<and>
   isLinearSegment (QPointF 0 0) (QPointF 0 6) (QPointF 1 0) (QPointF 0 0) = False \<and>
   1 / 3 / norm2D (QPointF 1 0 - QPointF 0 0)
     * crossProduct (QPointF 1 0 - QPointF 0 0) (QPointF 0 6) = 2"
  by (simp add: isLinearSegment_def norm2D_def pow2_def crossProduct_def Let_def)

subsection \<open>linearizeCurve on a degenerate curve\<close>

text \<open>
  C4, as stated: on a degenerate curve with \<open>p0 = p3\<close> \<open>linearizeCurve\<close> performs no
  division by zero, the computation of the minimum step size being guarded. It is not
  guarded: for \<open>p0 = p3 = (0, 0)\<close> the divisor \<open>kisDistance(p0, p3)\<close> is zero and the
  division is made.
\<close>

theorem linearizeCurve_divides_by_zero:
  "kisDistance (QPointF 0 0) (QPointF 0 0) = 0 \<and>
   minStepSize (QPointF 0 0) (QPointF 0 0) = DivisionByZero"
  by (simp add: minStepSize_def divide_qreal_def kisDistance_def kisSquareDistance_def pow2_def)

text \<open>
  C4, amended: on a degenerate curve with \<open>p0 = p3\<close> the minimum step size is computed
  by an unguarded division by the chord length zero; its IEEE quotient, plus infinity, is
  above the first step \<open>1 - 0\<close>, so the loop accepts the end point at once and the call
  returns just the two parameters 0 and 1.
\<close>

theorem linearizeCurve_degenerate:
  "minStepSize a a = DivisionByZero \<and> linearizeCurve a b c a = Some [0, 1]"
  by (simp add: linearizeCurve_def minStepSize_def kisDistance_def kisSquareDistance_def
      pow2_def divide_qreal_def linearizeLoop.simps)

subsection \<open>An error of the first solver iterate\<close>

text \<open>
  C5. \<open>calculateLocalPos\<close> hands the starting point \<open>(0.5, 0.5)\<close> to the minimizer,
  makes at most 10000 iterations and is claimed to return the last iterate whether the
  minimizer converged or reported an error. When the first call of the iteration reports
  an error the loop is left before \<open>result\<close> is assigned from \<open>s->x\<close>, and \<open>result\<close>
  still holds what the two assignments to \<open>result.rx()\<close> before the loop left there: the
  point \<open>(0.5, 0)\<close>, not the iterate \<open>(0.5, 0.5)\<close>.
\<close>

theorem calculateLocalPos_first_iterate_error:
  assumes "minimizer_x M (fdfminimizer_set M (\<lambda>x. my_f x (patchParams patch dst))
             (\<lambda>x. my_df x (patchParams patch dst)) startingPoint) = startingPoint"
    and "fst (fdfminimizer_iterate M (fdfminimizer_set M (\<lambda>x. my_f x (patchParams patch dst))
             (\<lambda>x. my_df x (patchParams patch dst)) startingPoint)) \<noteq> 0"
  shows "calculateLocalPos M patch dst = QPointF (1 / 2) 0"
proof -
  let ?s = "fdfminimizer_set M (\<lambda>x. my_f x (patchParams patch dst))
              (\<lambda>x. my_df x (patchParams patch dst)) startingPoint"
  have "solverLoop M ?s 0 r = (r, 1)" for r
    using assms(2) by (subst solverLoop.simps) (simp add: Let_def)
  with assms(1) show ?thesis
    by (simp add: calculateLocalPos_def calculateLocalPosIter_def startingPoint_def Let_def)
qed

text \<open>
  The input: the example patch and the destination point \<open>(7/2, 7/2)\<close>, which is the
  image of \<open>(0.5, 0.5)\<close>; there the gradient \<open>my_df\<close> is zero, and the minimizer makes no
  progress.
\<close>

theorem calculateLocalPos_first_iterate_error_witness:
  "calculateLocalPos stalledMinimizer examplePatch (QPointF (7 / 2) (7 / 2)) = QPointF (1 / 2) 0 \<and>
   my_df startingPoint (patchParams examplePatch (QPointF (7 / 2) (7 / 2))) = (0, 0) \<and>
   QPointF (1 / 2) 0 \<noteq> QPointF (fst startingPoint) (snd startingPoint)"
proof -
  have "calculateLocalPos stalledMinimizer examplePatch (QPointF (7 / 2) (7 / 2))
          = QPointF (1 / 2) 0"
    by (rule calculateLocalPos_first_iterate_error)
      (simp_all add: stalledMinimizer_def GSL_ENOPROG_def)
  moreover have "meshForwardMapping (1 / 2) (1 / 2)
      (patchParams examplePatch (QPointF (7 / 2) (7 / 2))) = QPointF (7 / 2) (7 / 2)"
    by (simp add: meshForwardMapping_transfPoint examplePatch_transfPoint)
  then have "my_df startingPoint (patchParams examplePatch (QPointF (7 / 2) (7 / 2))) = (0, 0)"
    by (simp add: my_df_def startingPoint_def Let_def patchParams_def)
  ultimately show ?thesis
    by (simp add: startingPoint_def)
qed

subsection \<open>The forward map is the Coons patch\<close>

text \<open>
  C6. For every patch and every \<open>(u, v)\<close>, the solver's closed-form forward map
  \<open>meshForwardMapping u v params\<close>, with the parameters \<open>p, q\<close> taken from the top and
  bottom boundary curves of the patch and \<open>r, s\<close> from its left and right ones (as
  \<open>calculateLocalPos\<close> fills them), equals the Coons-patch point \<open>Sc + Sd - Sb\<close> at
  \<open>xProportion = u\<close>, \<open>yProportion = v\<close>; hence every destination point that
  \<open>sampleIrregularGrid\<close> (which returns on every patch) or \<open>sampleRegularGrid\<close>
  (where it returns a grid) appends is the forward map at the proportions of its grid
  position.
\<close>

theorem meshForwardMapping_is_coons_patch:
  "(\<forall>u v. meshForwardMapping u v (patchParams patch dst) = transfPoint patch u v) \<and>
   (\<exists>gridSize origPoints' transfPoints' hs vs.
      sampleIrregularGrid patch origPoints transfPoints = Some (gridSize, origPoints', transfPoints')
      \<and> horizontalSteps patch = Some hs \<and> verticalSteps patch = Some vs
      \<and> (\<forall>x<length hs. \<forall>y<length vs.
            transfPoints' ! (length transfPoints + y * length hs + x)
              = meshForwardMapping (hs ! x) (vs ! y) (patchParams patch dst))) \<and>
   (\<forall>gridSize origPoints' transfPoints' x y.
      sampleRegularGrid patch origPoints transfPoints dstStep
        = Some (gridSize, origPoints', transfPoints')
      \<longrightarrow> x < nat (sizeWidth gridSize) \<longrightarrow> y < nat (sizeHeight gridSize)
      \<longrightarrow> transfPoints' ! (length transfPoints + y * nat (sizeWidth gridSize) + x)
            = meshForwardMapping (xProportionOf gridSize x) (yProportionOf gridSize y)
                (patchParams patch dst))"
proof (intro conjI allI impI)
  fix u v
  show "meshForwardMapping u v (patchParams patch dst) = transfPoint patch u v"
    by (rule meshForwardMapping_transfPoint)
next
  obtain hs vs where steps: "horizontalSteps patch = Some hs" "verticalSteps patch = Some vs"
    and grid: "sampleIrregularGrid patch origPoints transfPoints =
           Some (\<lparr> sizeWidth = int (length hs), sizeHeight = int (length vs) \<rparr>,
                 origPoints @ gridLoop (length hs) (length vs)
                                (\<lambda>x y. origPoint patch (hs ! x) (vs ! y)),
                 transfPoints @ gridLoop (length hs) (length vs)
                                  (\<lambda>x y. transfPoint patch (hs ! x) (vs ! y)))"
    by (rule sampleIrregularGrid_returns)
  let ?t = "transfPoints @ gridLoop (length hs) (length vs)
                                  (\<lambda>x y. transfPoint patch (hs ! x) (vs ! y))"
  have "?t ! (length transfPoints + y * length hs + x)
          = meshForwardMapping (hs ! x) (vs ! y) (patchParams patch dst)"
    if "x < length hs" "y < length vs" for x y
    using sampleIrregularGrid_transf_nth [OF grid steps that]
    by (simp only: meshForwardMapping_transfPoint)
  with steps grid
  show "\<exists>gridSize origPoints' transfPoints' hs vs.
      sampleIrregularGrid patch origPoints transfPoints = Some (gridSize, origPoints', transfPoints')
      \<and> horizontalSteps patch = Some hs \<and> verticalSteps patch = Some vs
      \<and> (\<forall>x<length hs. \<forall>y<length vs.
            transfPoints' ! (length transfPoints + y * length hs + x)
              = meshForwardMapping (hs ! x) (vs ! y) (patchParams patch dst))"
    by blast
next
  fix gridSize origPoints' transfPoints' x y
  assume "sampleRegularGrid patch origPoints transfPoints dstStep
            = Some (gridSize, origPoints', transfPoints')"
    and "x < nat (sizeWidth gridSize)" and "y < nat (sizeHeight gridSize)"
  then show "transfPoints' ! (length transfPoints + y * nat (sizeWidth gridSize) + x)
               = meshForwardMapping (xProportionOf gridSize x) (yProportionOf gridSize y)
                   (patchParams patch dst)"
    by (simp add: sampleRegularGrid_transf_nth meshForwardMapping_transfPoint)
qed

text \<open>
  On the example patch the samplers' grids are 3 by 3; the point in the middle (index 4,
  the proportions 1/2 and 1/2) and the point to its right (index 5, the proportions 1
  and 1/2) are the forward map there.
\<close>

theorem meshForwardMapping_is_coons_patch_witness:
  "meshForwardMapping (1 / 2) (1 / 2) (patchParams examplePatch 0)
     = transfPoint examplePatch (1 / 2) (1 / 2) \<and>
   transfPoint examplePatch (1 / 2) (1 / 2) = QPointF (7 / 2) (7 / 2) \<and>
   [QPointF 0 0, QPointF 2 (3 / 2), QPointF 4 0, QPointF (3 / 2) 2,
    QPointF (7 / 2) (7 / 2), QPointF (11 / 2) 2, QPointF 0 4,
    QPointF 2 (11 / 2), QPointF 4 4] ! 4
     = meshForwardMapping (1 / 2) (1 / 2) (patchParams examplePatch 0) \<and>
   [QPointF 0 0, QPointF 2 (3 / 2), QPointF 4 0, QPointF (3 / 2) 2,
    QPointF (7 / 2) (7 / 2), QPointF (11 / 2) 2, QPointF 0 4,
    QPointF 2 (11 / 2), QPointF 4 4] ! 5
     = meshForwardMapping 1 (1 / 2) (patchParams examplePatch 0)"
proof -
  note inst = meshForwardMapping_is_coons_patch
    [of examplePatch 0 "[]" "[]" "QPointF 2 2"]
  have a: "meshForwardMapping (1 / 2) (1 / 2) (patchParams examplePatch 0)
             = transfPoint examplePatch (1 / 2) (1 / 2)"
    using inst by blast
  obtain gridSize origPoints' transfPoints' hs vs where
    grid: "sampleIrregularGrid examplePatch [] [] = Some (gridSize, origPoints', transfPoints')"
    and hs: "horizontalSteps examplePatch = Some hs"
    and vs: "verticalSteps examplePatch = Some vs"
    and pts: "\<forall>x<length hs. \<forall>y<length vs.
            transfPoints' ! (length ([] :: QPointF list) + y * length hs + x)
              = meshForwardMapping (hs ! x) (vs ! y) (patchParams examplePatch 0)"
    using inst [THEN conjunct2, THEN conjunct1] by blast
  from hs vs have steps: "hs = [0, 1 / 2, 1]" "vs = [0, 1 / 2, 1]"
    by (simp_all add: examplePatch_horizontalSteps examplePatch_verticalSteps)
  from grid have t: "transfPoints' = [QPointF 0 0, QPointF 2 (3 / 2), QPointF 4 0,
            QPointF (3 / 2) 2, QPointF (7 / 2) (7 / 2), QPointF (11 / 2) 2, QPointF 0 4,
            QPointF 2 (11 / 2), QPointF 4 4]"
    by (simp add: examplePatch_sampleIrregularGrid)
  have b: "[QPointF 0 0, QPointF 2 (3 / 2), QPointF 4 0, QPointF (3 / 2) 2,
            QPointF (7 / 2) (7 / 2), QPointF (11 / 2) 2, QPointF 0 4,
            QPointF 2 (11 / 2), QPointF 4 4] ! 4
          = meshForwardMapping (1 / 2) (1 / 2) (patchParams examplePatch 0)"
    using pts [rule_format, of 1 1] unfolding steps t by simp
  have c: "[QPointF 0 0, QPointF 2 (3 / 2), QPointF 4 0, QPointF (3 / 2) 2,
            QPointF (7 / 2) (7 / 2), QPointF (11 / 2) 2, QPointF 0 4,
            QPointF 2 (11 / 2), QPointF 4 4] ! 5
          = meshForwardMapping 1 (1 / 2) (patchParams examplePatch 0)"
    using inst [THEN conjunct2, THEN conjunct2, rule_format,
        OF examplePatch_sampleRegularGrid, of 2 1]
    by (simp add: xProportionOf_def yProportionOf_def)
  from a b c show ?thesis
    by (simp only: examplePatch_transfPoint simp_thms)
qed

subsection \<open>The nodes of a subdivision\<close>

text \<open>
  C7, as stated: for any mesh and any \<open>t\<close> strictly between two adjacent row positions
  the boundary curve at the relative parameter equals the position of the new shared node
  after \<open>subdivideRow(t)\<close>. For \<open>t = 1 - 10^-13\<close>, strictly between the row positions 0
  and 1 of the 2 by 2 mesh over \<open>(0, 0, 100, 100)\<close>, \<open>qFuzzyCompare(t, 1.0)\<close> holds and
  the call returns at once: no node is inserted, and the node at \<open>(0, 1)\<close> is the old
  bottom node, which is not that point of the curve.
\<close>

theorem subdivideRow_near_one_inserts_no_node:
  "m_rows exampleMesh ! 0 < 9999999999999 / 10000000000000 \<and>
   9999999999999 / 10000000000000 < m_rows exampleMesh ! Suc 0 \<and>
   subdivideRow (9999999999999 / 10000000000000) exampleMesh = Some exampleMesh \<and>
   node (mesh_node exampleMesh 0 (Suc 0))
     \<noteq> bezierCurve (node (mesh_node exampleMesh 0 0)) (bottomControl (mesh_node exampleMesh 0 0))
         (topControl (mesh_node exampleMesh 0 (Suc 0))) (node (mesh_node exampleMesh 0 (Suc 0)))
         ((9999999999999 / 10000000000000 - m_rows exampleMesh ! 0)
            / (m_rows exampleMesh ! Suc 0 - m_rows exampleMesh ! 0))"
  by (simp add: exampleMesh_rows exampleMesh_nodes subdivideRow_def qFuzzyCompare_def
      mkNode_def bezierCurve_def pow2_def Let_def QPointF_ops)

text \<open>
  C7, amended: \<open>deCasteljau(q0,q1,q2,q3,t)\<close> bisects the cubic Bezier curve at \<open>t\<close>: its
  split point is \<open>bezierCurve(q0,q1,q2,q3,t)\<close>, and the two sub-curves reproduce the
  curve on \<open>[0, t]\<close> and on \<open>[t, 1]\<close>. Consequently, for any reachable mesh and any \<open>t\<close>
  strictly between two adjacent row (column) positions that is not within the tolerance
  of \<open>qFuzzyCompare\<close> of 1.0, the boundary curve of the original patch at the relative
  parameter equals the position of the new shared node after \<open>subdivideRow(t)\<close>
  (\<open>subdivideColumn(t)\<close>).
\<close>

theorem subdivision_identity:
  assumes "reachable m" and "\<not> qFuzzyCompare t 1"
  shows "(case deCasteljau a0 a1 a2 a3 s of (b, c, e, f, g) \<Rightarrow>
            e = bezierCurve a0 a1 a2 a3 s \<and>
            bezierCurve a0 b c e u = bezierCurve a0 a1 a2 a3 (s * u) \<and>
            bezierCurve e f g a3 u = bezierCurve a0 a1 a2 a3 (s + (1 - s) * u)) \<and>
         (Suc i < meshHeight m \<longrightarrow> col < meshWidth m \<longrightarrow>
          m_rows m ! i < t \<longrightarrow> t < m_rows m ! Suc i \<longrightarrow>
            (case subdivideRow t m of None \<Rightarrow> False | Some m' \<Rightarrow>
               node (mesh_node m' col (Suc i))
                 = bezierCurve (node (mesh_node m col i)) (bottomControl (mesh_node m col i))
                     (topControl (mesh_node m col (Suc i))) (node (mesh_node m col (Suc i)))
                     ((t - m_rows m ! i) / (m_rows m ! Suc i - m_rows m ! i)))) \<and>
         (Suc j < meshWidth m \<longrightarrow> row < meshHeight m \<longrightarrow>
          m_columns m ! j < t \<longrightarrow> t < m_columns m ! Suc j \<longrightarrow>
            (case subdivideColumn t m of None \<Rightarrow> False | Some m' \<Rightarrow>
               node (mesh_node m' (Suc j) row)
                 = bezierCurve (node (mesh_node m j row)) (rightControl (mesh_node m j row))
                     (leftControl (mesh_node m (Suc j) row)) (node (mesh_node m (Suc j) row))
                     ((t - m_columns m ! j) / (m_columns m ! Suc j - m_columns m ! j))))"
proof (intro conjI impI)
  obtain b c e f g where d: "deCasteljau a0 a1 a2 a3 s = (b, c, e, f, g)"
    by (metis prod_cases5)
  have "e = bezierCurve a0 a1 a2 a3 s"
    using deCasteljau_split_point [of a0 a1 a2 a3 s] d by simp
  with deCasteljau_left_curve [OF d, of u] deCasteljau_right_curve [OF d, of u]
  show "case deCasteljau a0 a1 a2 a3 s of (b, c, e, f, g) \<Rightarrow>
            e = bezierCurve a0 a1 a2 a3 s \<and>
            bezierCurve a0 b c e u = bezierCurve a0 a1 a2 a3 (s * u) \<and>
            bezierCurve e f g a3 u = bezierCurve a0 a1 a2 a3 (s + (1 - s) * u)"
    by (simp add: d)
next
  assume "Suc i < meshHeight m" "col < meshWidth m" "m_rows m ! i < t" "t < m_rows m ! Suc i"
  then show "case subdivideRow t m of None \<Rightarrow> False | Some m' \<Rightarrow>
               node (mesh_node m' col (Suc i))
                 = bezierCurve (node (mesh_node m col i)) (bottomControl (mesh_node m col i))
                     (topControl (mesh_node m col (Suc i))) (node (mesh_node m col (Suc i)))
                     ((t - m_rows m ! i) / (m_rows m ! Suc i - m_rows m ! i))"
  proof (rule subdivideRow_between [OF reachable_invariant [OF assms(1)] _ _ _ _ assms(2)])
    fix m'
    assume "subdivideRow t m = Some m'"
      and "node (mesh_node m' col (Suc i))
             = bezierCurve (node (mesh_node m col i)) (bottomControl (mesh_node m col i))
                 (topControl (mesh_node m col (Suc i))) (node (mesh_node m col (Suc i)))
                 ((t - m_rows m ! i) / (m_rows m ! Suc i - m_rows m ! i))"
    then show ?thesis by simp
  qed
next
  assume "Suc j < meshWidth m" "row < meshHeight m" "m_columns m ! j < t"
    "t < m_columns m ! Suc j"
  then show "case subdivideColumn t m of None \<Rightarrow> False | Some m' \<Rightarrow>
               node (mesh_node m' (Suc j) row)
                 = bezierCurve (node (mesh_node m j row)) (rightControl (mesh_node m j row))
                     (leftControl (mesh_node m (Suc j) row)) (node (mesh_node m (Suc j) row))
                     ((t - m_columns m ! j) / (m_columns m ! Suc j - m_columns m ! j))"
  proof (rule subdivideColumn_between [OF reachable_invariant [OF assms(1)] _ _ _ _ assms(2)])
    fix m'
    assume "subdivideColumn t m = Some m'"
      and "node (mesh_node m' (Suc j) row)
             = bezierCurve (node (mesh_node m j row)) (rightControl (mesh_node m j row))
                 (leftControl (mesh_node m (Suc j) row)) (node (mesh_node m (Suc j) row))
                 ((t - m_columns m ! j) / (m_columns m ! Suc j - m_columns m ! j))"
    then show ?thesis by simp
  qed
qed

text \<open>
  On the example mesh, subdivided at \<open>t = 1/4\<close>: the new node of column 0 lies at
  \<open>(0, 125/8)\<close> and the new node of row 0 at \<open>(125/8, 0)\<close>, the points of the straight
  boundary curves at the parameter 1/4; and the curve of the example patch's top boundary
  is bisected at 1/2 in the point \<open>(2, 3/2)\<close>.
\<close>

theorem subdivision_identity_witness:
  "reachable exampleMesh \<and> \<not> qFuzzyCompare (1 / 4) 1 \<and>
   m_rows exampleMesh ! 0 < 1 / 4 \<and> 1 / 4 < m_rows exampleMesh ! Suc 0 \<and>
   m_columns exampleMesh ! 0 < 1 / 4 \<and> 1 / 4 < m_columns exampleMesh ! Suc 0 \<and>
   (case deCasteljau (QPointF 0 0) (QPointF 1 2) (QPointF 3 2) (QPointF 4 0) (1 / 2) of
      (b, c, e, f, g) \<Rightarrow> e = QPointF 2 (3 / 2)) \<and>
   (case subdivideRow (1 / 4) exampleMesh of None \<Rightarrow> False | Some m' \<Rightarrow>
      node (mesh_node m' 0 (Suc 0)) = QPointF 0 (125 / 8)) \<and>
   (case subdivideColumn (1 / 4) exampleMesh of None \<Rightarrow> False | Some m' \<Rightarrow>
      node (mesh_node m' (Suc 0) 0) = QPointF (125 / 8) 0)"
proof -
  have nf: "\<not> qFuzzyCompare (1 / 4) 1"
    by (simp add: qFuzzyCompare_def)
  note inst = subdivision_identity [OF exampleMesh_reachable nf,
      of "QPointF 0 0" "QPointF 1 2" "QPointF 3 2" "QPointF 4 0" "1 / 2" 0 0 0 0 0]
  have a: "case deCasteljau (QPointF 0 0) (QPointF 1 2) (QPointF 3 2) (QPointF 4 0) (1 / 2) of
      (b, c, e, f, g) \<Rightarrow> e = QPointF 2 (3 / 2)"
    using inst [THEN conjunct1]
    by (cases "deCasteljau (QPointF 0 0) (QPointF 1 2) (QPointF 3 2) (QPointF 4 0) (1 / 2)")
      (simp add: bezierCurve_def pow2_def Let_def QPointF_ops)
  have b: "case subdivideRow (1 / 4) exampleMesh of None \<Rightarrow> False | Some m' \<Rightarrow>
      node (mesh_node m' 0 (Suc 0)) = QPointF 0 (125 / 8)"
    using inst [THEN conjunct2, THEN conjunct1]
    by (cases "subdivideRow (1 / 4) exampleMesh")
      (simp_all add: exampleMesh_size exampleMesh_rows exampleMesh_nodes mkNode_def
        bezierCurve_def pow2_def Let_def QPointF_ops)
  have c: "case subdivideColumn (1 / 4) exampleMesh of None \<Rightarrow> False | Some m' \<Rightarrow>
      node (mesh_node m' (Suc 0) 0) = QPointF (125 / 8) 0"
    using inst [THEN conjunct2, THEN conjunct2]
    by (cases "subdivideColumn (1 / 4) exampleMesh")
      (simp_all add: exampleMesh_size exampleMesh_rows exampleMesh_nodes mkNode_def
        bezierCurve_def pow2_def Let_def QPointF_ops)
  from a b c nf show ?thesis
    by (simp add: exampleMesh_reachable exampleMesh_rows)
qed

subsection \<open>The boundary of the sampled grid\<close>

text \<open>
  C8. For every patch, \<open>sampleIrregularGrid\<close> returns (the loops of \<open>linearizeCurve\<close>
  end), and at every grid position the destination point whose \<open>xProportion\<close> is 0 or 1,
  or whose \<open>yProportion\<close> is 0 or 1, is the point of the corresponding boundary curve
  (left, right, top, bottom) at the other proportion: \<open>Sc + Sd - Sb\<close> adds no error on
  the four boundaries.
\<close>

theorem sampleIrregularGrid_boundary:
  "\<exists>hs vs gridSize origPoints' transfPoints'.
     horizontalSteps patch = Some hs \<and> verticalSteps patch = Some vs \<and>
     sampleIrregularGrid patch origPoints transfPoints
       = Some (gridSize, origPoints', transfPoints') \<and>
     gridSize = \<lparr> sizeWidth = int (length hs), sizeHeight = int (length vs) \<rparr> \<and>
     length transfPoints' = length transfPoints + length hs * length vs \<and>
     (\<forall>x<length hs. \<forall>y<length vs.
        (hs ! x = 0 \<longrightarrow> transfPoints' ! (length transfPoints + y * length hs + x)
            = bezierCurve (points patch TL) (points patch TL_VC) (points patch BL_VC)
                (points patch BL) (vs ! y)) \<and>
        (hs ! x = 1 \<longrightarrow> transfPoints' ! (length transfPoints + y * length hs + x)
            = bezierCurve (points patch TR) (points patch TR_VC) (points patch BR_VC)
                (points patch BR) (vs ! y)) \<and>
        (vs ! y = 0 \<longrightarrow> transfPoints' ! (length transfPoints + y * length hs + x)
            = bezierCurve (points patch TL) (points patch TL_HC) (points patch TR_HC)
                (points patch TR) (hs ! x)) \<and>
        (vs ! y = 1 \<longrightarrow> transfPoints' ! (length transfPoints + y * length hs + x)
            = bezierCurve (points patch BL) (points patch BL_HC) (points patch BR_HC)
                (points patch BR) (hs ! x)))"
proof -
  obtain hs vs where steps: "horizontalSteps patch = Some hs" "verticalSteps patch = Some vs"
    and grid: "sampleIrregularGrid patch origPoints transfPoints =
           Some (\<lparr> sizeWidth = int (length hs), sizeHeight = int (length vs) \<rparr>,
                 origPoints @ gridLoop (length hs) (length vs)
                                (\<lambda>x y. origPoint patch (hs ! x) (vs ! y)),
                 transfPoints @ gridLoop (length hs) (length vs)
                                  (\<lambda>x y. transfPoint patch (hs ! x) (vs ! y)))"
    by (rule sampleIrregularGrid_returns)
  let ?t = "transfPoints @ gridLoop (length hs) (length vs)
                                  (\<lambda>x y. transfPoint patch (hs ! x) (vs ! y))"
  have len: "length ?t = length transfPoints + length hs * length vs"
    by (simp add: gridLoop_length)
  have pt: "?t ! (length transfPoints + y * length hs + x) = transfPoint patch (hs ! x) (vs ! y)"
    if "x < length hs" "y < length vs" for x y
    using grid steps that by (rule sampleIrregularGrid_transf_nth)
  have "\<forall>x<length hs. \<forall>y<length vs.
        (hs ! x = 0 \<longrightarrow> ?t ! (length transfPoints + y * length hs + x)
            = bezierCurve (points patch TL) (points patch TL_VC) (points patch BL_VC)
                (points patch BL) (vs ! y)) \<and>
        (hs ! x = 1 \<longrightarrow> ?t ! (length transfPoints + y * length hs + x)
            = bezierCurve (points patch TR) (points patch TR_VC) (points patch BR_VC)
                (points patch BR) (vs ! y)) \<and>
        (vs ! y = 0 \<longrightarrow> ?t ! (length transfPoints + y * length hs + x)
            = bezierCurve (points patch TL) (points patch TL_HC) (points patch TR_HC)
                (points patch TR) (hs ! x)) \<and>
        (vs ! y = 1 \<longrightarrow> ?t ! (length transfPoints + y * length hs + x)
            = bezierCurve (points patch BL) (points patch BL_HC) (points patch BR_HC)
                (points patch BR) (hs ! x))"
    using pt
    by (auto simp only: transfPoint_left transfPoint_right transfPoint_top transfPoint_bottom)
  with steps grid len show ?thesis by blast
qed

text \<open>
  On the example patch: the grid position \<open>(2, 1)\<close> (index 5) has \<open>xProportion = 1\<close>
  and lies on the right boundary curve at \<open>1/2\<close>; the position \<open>(1, 0)\<close> (index 1) has
  \<open>yProportion = 0\<close> and lies on the top boundary curve at \<open>1/2\<close>.
\<close>

theorem sampleIrregularGrid_boundary_witness:
  "sampleIrregularGrid examplePatch [] [] =
     Some (\<lparr> sizeWidth = 3, sizeHeight = 3 \<rparr>,
           [QPointF 0 0, QPointF 2 0, QPointF 4 0, QPointF 0 2, QPointF 2 2,
            QPointF 4 2, QPointF 0 4, QPointF 2 4, QPointF 4 4],
           [QPointF 0 0, QPointF 2 (3 / 2), QPointF 4 0, QPointF (3 / 2) 2,
            QPointF (7 / 2) (7 / 2), QPointF (11 / 2) 2, QPointF 0 4,
            QPointF 2 (11 / 2), QPointF 4 4]) \<and>
   horizontalSteps examplePatch = Some [0, 1 / 2, 1] \<and>
   verticalSteps examplePatch = Some [0, 1 / 2, 1] \<and>
   QPointF (11 / 2) 2 = bezierCurve (points examplePatch TR) (points examplePatch TR_VC)
       (points examplePatch BR_VC) (points examplePatch BR) (1 / 2) \<and>
   QPointF 2 (3 / 2) = bezierCurve (points examplePatch TL) (points examplePatch TL_HC)
       (points examplePatch TR_HC) (points examplePatch TR) (1 / 2)"
proof -
  obtain hs vs gridSize origPoints' transfPoints' where
    hs: "horizontalSteps examplePatch = Some hs" and vs: "verticalSteps examplePatch = Some vs"
    and grid: "sampleIrregularGrid examplePatch [] [] = Some (gridSize, origPoints', transfPoints')"
    and pts: "\<forall>x<length hs. \<forall>y<length vs.
        (hs ! x = 0 \<longrightarrow> transfPoints' ! (length ([] :: QPointF list) + y * length hs + x)
            = bezierCurve (points examplePatch TL) (points examplePatch TL_VC)
                (points examplePatch BL_VC) (points examplePatch BL) (vs ! y)) \<and>
        (hs ! x = 1 \<longrightarrow> transfPoints' ! (length ([] :: QPointF list) + y * length hs + x)
            = bezierCurve (points examplePatch TR) (points examplePatch TR_VC)
                (points examplePatch BR_VC) (points examplePatch BR) (vs ! y)) \<and>
        (vs ! y = 0 \<longrightarrow> transfPoints' ! (length ([] :: QPointF list) + y * length hs + x)
            = bezierCurve (points examplePatch TL) (points examplePatch TL_HC)
                (points examplePatch TR_HC) (points examplePatch TR) (hs ! x)) \<and>
        (vs ! y = 1 \<longrightarrow> transfPoints' ! (length ([] :: QPointF list) + y * length hs + x)
            = bezierCurve (points examplePatch BL) (points examplePatch BL_HC)
                (points examplePatch BR_HC) (points examplePatch BR) (hs ! x))"
    using sampleIrregularGrid_boundary [of examplePatch "[]" "[]"] by blast
  from hs vs have steps: "hs = [0, 1 / 2, 1]" "vs = [0, 1 / 2, 1]"
    by (simp_all add: examplePatch_horizontalSteps examplePatch_verticalSteps)
  from grid have t: "transfPoints' = [QPointF 0 0, QPointF 2 (3 / 2), QPointF 4 0, QPointF (3 / 2) 2,
            QPointF (7 / 2) (7 / 2), QPointF (11 / 2) 2, QPointF 0 4,
            QPointF 2 (11 / 2), QPointF 4 4]"
    by (simp add: examplePatch_sampleIrregularGrid)
  have a: "QPointF (11 / 2) 2 = bezierCurve (points examplePatch TR) (points examplePatch TR_VC)
       (points examplePatch BR_VC) (points examplePatch BR) (1 / 2)"
    using pts [rule_format, of 2 1] unfolding steps t by simp
  have b: "QPointF 2 (3 / 2) = bezierCurve (points examplePatch TL) (points examplePatch TL_HC)
       (points examplePatch TR_HC) (points examplePatch TR) (1 / 2)"
    using pts [rule_format, of 1 0] unfolding steps t by simp
  from a b show ?thesis
    by (simp only: examplePatch_sampleIrregularGrid examplePatch_horizontalSteps
        examplePatch_verticalSteps simp_thms)
qed

subsection \<open>The mesh invariant\<close>

text \<open>
  C9, as stated: every mesh reachable from a constructor call by subdivisions has column
  and row sequences that are strictly sorted and free of duplicates. It fails for the
  2 by 2 mesh over the rectangle \<open>(0, 0, 100, 100)\<close> after \<open>subdivideRow(0.5)\<close> twice:
  the second call finds the position 0.5 in place and inserts it again.
\<close>

theorem reachable_rows_with_duplicate:
  "(case Option.bind (subdivideRow (1 / 2) exampleMesh) (subdivideRow (1 / 2)) of
      None \<Rightarrow> False
    | Some m \<Rightarrow> reachable m \<and> m_rows m = [0, 1 / 2, 1 / 2, 1]
               \<and> \<not> distinct (m_rows m) \<and> \<not> sorted_wrt (<) (m_rows m))"
  using bind_reachable [OF exampleMesh_reachable exampleMesh_subdivideRow_half_twice]
  by (simp add: exampleMesh_subdivideRow_half_twice)

text \<open>
  C9, amended: every mesh reachable from a constructor call (with a size of at least
  2 by 2) by any sequence of \<open>subdivideRow\<close> and \<open>subdivideColumn\<close> calls satisfies:
  \<open>columns[0] = 0\<close> and \<open>columns[last] = 1\<close> (and the same for the rows), the node
  storage holds width times height nodes, there are width column positions and height row
  positions, and the two sequences are sorted (a position may occur more than once).
\<close>

theorem reachable_mesh_invariant:
  assumes "reachable m"
  shows "m_columns m ! 0 = 0 \<and> last (m_columns m) = 1 \<and>
         m_rows m ! 0 = 0 \<and> last (m_rows m) = 1 \<and>
         length (m_nodes m) = meshWidth m * meshHeight m \<and>
         length (m_columns m) = meshWidth m \<and> length (m_rows m) = meshHeight m \<and>
         sorted (m_columns m) \<and> sorted (m_rows m)"
  using reachable_invariant [OF assms] by (simp add: meshInvariant_def)

text \<open>The mesh with the row position 0.5 twice is reachable and satisfies the invariant.\<close>

theorem reachable_mesh_invariant_witness:
  "(case Option.bind (subdivideRow (1 / 2) exampleMesh) (subdivideRow (1 / 2)) of
      None \<Rightarrow> False
    | Some m \<Rightarrow> reachable m \<and> m_rows m = [0, 1 / 2, 1 / 2, 1] \<and> sorted (m_rows m)
               \<and> m_columns m = [0, 1] \<and> length (m_nodes m) = 8
               \<and> meshWidth m = 2 \<and> meshHeight m = 4)"
proof -
  obtain m where m: "Option.bind (subdivideRow (1 / 2) exampleMesh) (subdivideRow (1 / 2)) = Some m"
    using exampleMesh_subdivideRow_half_twice by blast
  have r: "reachable m"
    using bind_reachable [OF exampleMesh_reachable m] .
  from reachable_mesh_invariant [OF r] have "sorted (m_rows m)"
    and "length (m_nodes m) = meshWidth m * meshHeight m"
    by simp_all
  moreover from m have "m_rows m = [0, 1 / 2, 1 / 2, 1]" "m_columns m = [0, 1]"
    "meshWidth m = 2" "meshHeight m = 4"
    by (auto simp add: exampleMesh_subdivideRow_half_twice meshWidth_def meshHeight_def)
  ultimately show ?thesis
    using r m by simp
qed

subsection \<open>The frame of a subdivision\<close>

text \<open>
  C10. For every reachable mesh and every \<open>t\<close> strictly between the adjacent row
  positions \<open>i\<close> and \<open>i + 1\<close>, \<open>subdivideRow(t)\<close> changes, among the nodes that existed
  before, at most the \<open>bottomControl\<close> of the nodes of row \<open>i\<close> and the \<open>topControl\<close> of the
  nodes of row \<open>i + 1\<close>: every other field of these nodes and every node of another row
  is unchanged. The old row \<open>r > i\<close> is row \<open>r + 1\<close> of the new mesh (row \<open>r\<close> when the
  call returned at once because \<open>t\<close> is within the tolerance of 1.0). Symmetrically for
  \<open>subdivideColumn(t)\<close>, with the \<open>rightControl\<close> of column \<open>j\<close> and the \<open>leftControl\<close> of
  column \<open>j + 1\<close>.
\<close>

theorem subdivision_frame:
  assumes "reachable m"
  shows "(Suc i < meshHeight m \<longrightarrow> col < meshWidth m \<longrightarrow>
          m_rows m ! i < t \<longrightarrow> t < m_rows m ! Suc i \<longrightarrow>
            (case subdivideRow t m of None \<Rightarrow> False | Some m' \<Rightarrow>
               let shift = (if qFuzzyCompare t 1 then 0 else 1) in
               (\<forall>row<i. mesh_node m' col row = mesh_node m col row) \<and>
               mesh_node m' col i
                 = (mesh_node m col i)\<lparr> bottomControl := bottomControl (mesh_node m' col i) \<rparr> \<and>
               mesh_node m' col (Suc i + shift)
                 = (mesh_node m col (Suc i))
                     \<lparr> topControl := topControl (mesh_node m' col (Suc i + shift)) \<rparr> \<and>
               (\<forall>row. Suc i < row \<longrightarrow> row < meshHeight m \<longrightarrow>
                  mesh_node m' col (row + shift) = mesh_node m col row))) \<and>
         (Suc j < meshWidth m \<longrightarrow> row < meshHeight m \<longrightarrow>
          m_columns m ! j < t \<longrightarrow> t < m_columns m ! Suc j \<longrightarrow>
            (case subdivideColumn t m of None \<Rightarrow> False | Some m' \<Rightarrow>
               let shift = (if qFuzzyCompare t 1 then 0 else 1) in
               (\<forall>col<j. mesh_node m' col row = mesh_node m col row) \<and>
               mesh_node m' j row
                 = (mesh_node m j row)\<lparr> rightControl := rightControl (mesh_node m' j row) \<rparr> \<and>
               mesh_node m' (Suc j + shift) row
                 = (mesh_node m (Suc j) row)
                     \<lparr> leftControl := leftControl (mesh_node m' (Suc j + shift) row) \<rparr> \<and>
               (\<forall>col. Suc j < col \<longrightarrow> col < meshWidth m \<longrightarrow>
                  mesh_node m' (col + shift) row = mesh_node m col row)))"
proof (intro conjI impI)
  assume h: "Suc i < meshHeight m" "col < meshWidth m" "m_rows m ! i < t" "t < m_rows m ! Suc i"
  show "case subdivideRow t m of None \<Rightarrow> False | Some m' \<Rightarrow>
               let shift = (if qFuzzyCompare t 1 then 0 else 1) in
               (\<forall>row<i. mesh_node m' col row = mesh_node m col row) \<and>
               mesh_node m' col i
                 = (mesh_node m col i)\<lparr> bottomControl := bottomControl (mesh_node m' col i) \<rparr> \<and>
               mesh_node m' col (Suc i + shift)
                 = (mesh_node m col (Suc i))
                     \<lparr> topControl := topControl (mesh_node m' col (Suc i + shift)) \<rparr> \<and>
               (\<forall>row. Suc i < row \<longrightarrow> row < meshHeight m \<longrightarrow>
                  mesh_node m' col (row + shift) = mesh_node m col row)"
  proof (cases "qFuzzyCompare t 1")
    case True
    then show ?thesis
      by (simp add: subdivideRow_noop)
  next
    case False
    show ?thesis
    proof (rule subdivideRow_between [OF reachable_invariant [OF assms] h False])
      fix m'
      assume "subdivideRow t m = Some m'"
        and "\<forall>row<i. mesh_node m' col row = mesh_node m col row"
        and "mesh_node m' col i
           = (mesh_node m col i)\<lparr> bottomControl := bottomControl (mesh_node m' col i) \<rparr>"
        and "mesh_node m' col (Suc (Suc i))
           = (mesh_node m col (Suc i))\<lparr> topControl := topControl (mesh_node m' col (Suc (Suc i))) \<rparr>"
        and "\<forall>row. Suc i < row \<longrightarrow> row < meshHeight m \<longrightarrow>
           mesh_node m' col (Suc row) = mesh_node m col row"
      with False show ?thesis
        by simp
    qed
  qed
next
  assume h: "Suc j < meshWidth m" "row < meshHeight m" "m_columns m ! j < t"
    "t < m_columns m ! Suc j"
  show "case subdivideColumn t m of None \<Rightarrow> False | Some m' \<Rightarrow>
               let shift = (if qFuzzyCompare t 1 then 0 else 1) in
               (\<forall>col<j. mesh_node m' col row = mesh_node m col row) \<and>
               mesh_node m' j row
                 = (mesh_node m j row)\<lparr> rightControl := rightControl (mesh_node m' j row) \<rparr> \<and>
               mesh_node m' (Suc j + shift) row
                 = (mesh_node m (Suc j) row)
                     \<lparr> leftControl := leftControl (mesh_node m' (Suc j + shift) row) \<rparr> \<and>
               (\<forall>col. Suc j < col \<longrightarrow> col < meshWidth m \<longrightarrow>
                  mesh_node m' (col + shift) row = mesh_node m col row)"
  proof (cases "qFuzzyCompare t 1")
    case True
    then show ?thesis
      by (simp add: subdivideColumn_noop)
  next
    case False
    show ?thesis
    proof (rule subdivideColumn_between [OF reachable_invariant [OF assms] h False])
      fix m'
      assume "subdivideColumn t m = Some m'"
        and "\<forall>col<j. mesh_node m' col row = mesh_node m col row"
        and "mesh_node m' j row
           = (mesh_node m j row)\<lparr> rightControl := rightControl (mesh_node m' j row) \<rparr>"
        and "mesh_node m' (Suc (Suc j)) row
           = (mesh_node m (Suc j) row)\<lparr> leftControl := leftControl (mesh_node m' (Suc (Suc j)) row) \<rparr>"
        and "\<forall>col. Suc j < col \<longrightarrow> col < meshWidth m \<longrightarrow>
           mesh_node m' (Suc col) row = mesh_node m col row"
      with False show ?thesis
        by simp
    qed
  qed
qed

text \<open>
  On the 3 by 3 example mesh, subdivided at \<open>t = 1/4\<close> (between the positions 0 and
  1/2): the node \<open>(0, 0)\<close> keeps its position and its top control, the old node
  \<open>(0, 1)\<close>, now at \<open>(0, 2)\<close>, keeps its position and its bottom control, and the old
  node \<open>(0, 2)\<close>, now at \<open>(0, 3)\<close>, is unchanged; and the same along row 0 for the
  column subdivision.
\<close>

theorem subdivision_frame_witness:
  "reachable exampleMesh3 \<and>
   m_rows exampleMesh3 ! 0 < 1 / 4 \<and> 1 / 4 < m_rows exampleMesh3 ! Suc 0 \<and>
   m_columns exampleMesh3 ! 0 < 1 / 4 \<and> 1 / 4 < m_columns exampleMesh3 ! Suc 0 \<and>
   (case subdivideRow (1 / 4) exampleMesh3 of None \<Rightarrow> False | Some m' \<Rightarrow>
      node (mesh_node m' 0 0) = QPointF 0 0 \<and> topControl (mesh_node m' 0 0) = QPointF 0 0 \<and>
      node (mesh_node m' 0 2) = QPointF 0 50 \<and> bottomControl (mesh_node m' 0 2) = QPointF 0 50 \<and>
      mesh_node m' 0 3 = mkNode (QPointF 0 100)) \<and>
   (case subdivideColumn (1 / 4) exampleMesh3 of None \<Rightarrow> False | Some m' \<Rightarrow>
      node (mesh_node m' 0 0) = QPointF 0 0 \<and> leftControl (mesh_node m' 0 0) = QPointF 0 0 \<and>
      node (mesh_node m' 2 0) = QPointF 50 0 \<and> rightControl (mesh_node m' 2 0) = QPointF 50 0 \<and>
      mesh_node m' 3 0 = mkNode (QPointF 100 0))"
proof -
  have nf: "\<not> qFuzzyCompare (1 / 4) 1"
    by (simp add: qFuzzyCompare_def)
  note inst = subdivision_frame [OF exampleMesh3_reachable, of 0 0 "1 / 4" 0 0]
  have a: "case subdivideRow (1 / 4) exampleMesh3 of None \<Rightarrow> False | Some m' \<Rightarrow>
      node (mesh_node m' 0 0) = QPointF 0 0 \<and> topControl (mesh_node m' 0 0) = QPointF 0 0 \<and>
      node (mesh_node m' 0 2) = QPointF 0 50 \<and> bottomControl (mesh_node m' 0 2) = QPointF 0 50 \<and>
      mesh_node m' 0 3 = mkNode (QPointF 0 100)"
  proof (cases "subdivideRow (1 / 4) exampleMesh3")
    case None
    with inst [THEN conjunct1] show ?thesis
      by (simp add: exampleMesh3_positions)
  next
    case (Some m')
    with inst [THEN conjunct1] nf
    have f: "mesh_node m' 0 0
               = (mkNode (QPointF 0 0))\<lparr> bottomControl := bottomControl (mesh_node m' 0 0) \<rparr>"
      "mesh_node m' 0 2
               = (mkNode (QPointF 0 50))\<lparr> topControl := topControl (mesh_node m' 0 2) \<rparr>"
      "\<forall>row. Suc 0 < row \<longrightarrow> row < 3 \<longrightarrow> mesh_node m' 0 (row + 1) = mesh_node exampleMesh3 0 row"
      by (simp_all add: exampleMesh3_positions exampleMesh3_nodes Let_def eval_nat_numeral)
    from f(3) [rule_format, of 2] have g: "mesh_node m' 0 3 = mkNode (QPointF 0 100)"
      by (simp add: exampleMesh3_nodes)
    have "node (mesh_node m' 0 0) = QPointF 0 0" "topControl (mesh_node m' 0 0) = QPointF 0 0"
      "node (mesh_node m' 0 2) = QPointF 0 50" "bottomControl (mesh_node m' 0 2) = QPointF 0 50"
      by (subst f, simp add: mkNode_def)+
    with g Some show ?thesis by simp
  qed
  have b: "case subdivideColumn (1 / 4) exampleMesh3 of None \<Rightarrow> False | Some m' \<Rightarrow>
      node (mesh_node m' 0 0) = QPointF 0 0 \<and> leftControl (mesh_node m' 0 0) = QPointF 0 0 \<and>
      node (mesh_node m' 2 0) = QPointF 50 0 \<and> rightControl (mesh_node m' 2 0) = QPointF 50 0 \<and>
      mesh_node m' 3 0 = mkNode (QPointF 100 0)"
  proof (cases "subdivideColumn (1 / 4) exampleMesh3")
    case None
    with inst [THEN conjunct2] show ?thesis
      by (simp add: exampleMesh3_positions)
  next
    case (Some m')
    with inst [THEN conjunct2] nf
    have f: "mesh_node m' 0 0
               = (mkNode (QPointF 0 0))\<lparr> rightControl := rightControl (mesh_node m' 0 0) \<rparr>"
      "mesh_node m' 2 0
               = (mkNode (QPointF 50 0))\<lparr> leftControl := leftControl (mesh_node m' 2 0) \<rparr>"
      "\<forall>col. Suc 0 < col \<longrightarrow> col < 3 \<longrightarrow> mesh_node m' (col + 1) 0 = mesh_node exampleMesh3 col 0"
      by (simp_all add: exampleMesh3_positions exampleMesh3_nodes Let_def eval_nat_numeral)
    from f(3) [rule_format, of 2] have g: "mesh_node m' 3 0 = mkNode (QPointF 100 0)"
      by (simp add: exampleMesh3_nodes)
    have "node (mesh_node m' 0 0) = QPointF 0 0" "leftControl (mesh_node m' 0 0) = QPointF 0 0"
      "node (mesh_node m' 2 0) = QPointF 50 0" "rightControl (mesh_node m' 2 0) = QPointF 50 0"
      by (subst f, simp add: mkNode_def)+
    with g Some show ?thesis by simp
  qed
  from a b show ?thesis
    by (simp add: exampleMesh3_reachable exampleMesh3_positions)
qed

end
